theory Spec2Isabelle
  imports Main "HOL-Library.Char_ord" "HOL-Library.List_Lexorder"
begin

section \<open>Characters and strings of the source language\<close>

text \<open>
  The program is Python: a \<^verbatim>\<open>str\<close> is a sequence of code points. The model takes
  texts over the code points U+0000 .. U+00FF, one \<^typ>\<open>char\<close> per code point, and
  writes out, for that range, the character classes Python uses: \<^verbatim>\<open>str.lower\<close>,
  \<^verbatim>\<open>str.isspace\<close> (which is also the class \<^verbatim>\<open>\s\<close> of \<^verbatim>\<open>re\<close> and what
  \<^verbatim>\<open>str.strip\<close> removes), \<^verbatim>\<open>\d\<close>, \<^verbatim>\<open>\w\<close> and \<^verbatim>\<open>[a-z]\<close>.
\<close>

definition cp :: "char \<Rightarrow> nat" where
  "cp c = of_char c"

definition newline :: char where
  "newline = CHR 0x0A"

definition is_upper :: "char \<Rightarrow> bool" where
  "is_upper c = ((65 \<le> cp c \<and> cp c \<le> 90) \<or> (192 \<le> cp c \<and> cp c \<le> 214)
                 \<or> (216 \<le> cp c \<and> cp c \<le> 222))"

text \<open>
  \<^verbatim>\<open>str.lower\<close> on one character. The upper-case letters of the range (A-Z, U+00C0-U+00D6,
  U+00D8-U+00DE) have bit 5 clear and their lower-case form is 32 code points above, which
  is the same character with bit 5 set.
\<close>

definition py_lower_char :: "char \<Rightarrow> char" where
  "py_lower_char c =
     (if is_upper c
      then (case c of Char b0 b1 b2 b3 b4 b5 b6 b7 \<Rightarrow> Char b0 b1 b2 b3 b4 True b6 b7)
      else c)"

definition py_lower :: "string \<Rightarrow> string" where
  "py_lower s = map py_lower_char s"

definition py_isspace :: "char \<Rightarrow> bool" where
  "py_isspace c = ((9 \<le> cp c \<and> cp c \<le> 13) \<or> (28 \<le> cp c \<and> cp c \<le> 32)
                   \<or> cp c = 133 \<or> cp c = 160)"

definition is_digit :: "char \<Rightarrow> bool" where
  "is_digit c = (48 \<le> cp c \<and> cp c \<le> 57)"

definition is_az :: "char \<Rightarrow> bool" where
  "is_az c = (97 \<le> cp c \<and> cp c \<le> 122)"

text \<open>
  The class \<^verbatim>\<open>\w\<close> of a \<^verbatim>\<open>str\<close> pattern: the alphanumeric characters and the
  underscore. In the range these are 0-9, A-Z, a-z, U+00AA, U+00B2, U+00B3, U+00B5, U+00B9,
  U+00BA, U+00BC-U+00BE, U+00C0-U+00D6, U+00D8-U+00F6 and U+00F8-U+00FF.
\<close>

definition is_word :: "char \<Rightarrow> bool" where
  "is_word c =
     (is_digit c \<or> (65 \<le> cp c \<and> cp c \<le> 90) \<or> is_az c \<or> cp c = 95
      \<or> cp c = 170 \<or> cp c = 178 \<or> cp c = 179 \<or> cp c = 181 \<or> cp c = 185 \<or> cp c = 186
      \<or> (188 \<le> cp c \<and> cp c \<le> 190) \<or> (192 \<le> cp c \<and> cp c \<le> 214)
      \<or> (216 \<le> cp c \<and> cp c \<le> 246) \<or> (248 \<le> cp c \<and> cp c \<le> 255))"

definition py_strip :: "string \<Rightarrow> string" where
  "py_strip s = rev (dropWhile py_isspace (rev (dropWhile py_isspace s)))"

text \<open>\<^verbatim>\<open>a in b\<close> on strings: \<open>a\<close> occurs in \<open>b\<close> as a contiguous run.\<close>

fun starts_with :: "string \<Rightarrow> string \<Rightarrow> bool" where
  "starts_with [] s = True"
| "starts_with (p # ps) [] = False"
| "starts_with (p # ps) (c # cs) = (p = c \<and> starts_with ps cs)"

fun py_in :: "string \<Rightarrow> string \<Rightarrow> bool" where
  "py_in a [] = (a = [])"
| "py_in a (c # cs) = (starts_with a (c # cs) \<or> py_in a cs)"

text \<open>
  \<^verbatim>\<open>int(s)\<close> on a non-empty run of the digits 0-9. Python integers are unbounded, but the
  conversion of a string of more than 4300 digits, leading zeros counted, raises
  \<^verbatim>\<open>ValueError\<close> (the default of \<^verbatim>\<open>sys.int_info.default_max_str_digits\<close>, CPython 3.11
  and later).
\<close>

datatype py_error = ValueError

definition digit_val :: "char \<Rightarrow> int" where
  "digit_val c = int (cp c) - 48"

definition digits_value :: "string \<Rightarrow> int" where
  "digits_value s = foldl (\<lambda>a c. 10 * a + digit_val c) 0 s"

definition int_max_str_digits :: nat where
  "int_max_str_digits = 4300"

definition py_int :: "string \<Rightarrow> py_error + int" where
  "py_int s = (if length s > int_max_str_digits then Inl ValueError else Inr (digits_value s))"

text \<open>Truth value of an optional string: \<^verbatim>\<open>None\<close> and the empty string are false.\<close>

fun truthy :: "string option \<Rightarrow> bool" where
  "truthy None = False"
| "truthy (Some s) = (s \<noteq> [])"

section \<open>The regular expressions of the parser\<close>

text \<open>
  \<^verbatim>\<open>re.search\<close> tries the pattern at every position from left to right and returns the
  first match. Each pattern of \<^verbatim>\<open>parse_gag_file\<close> is a literal label, matched under
  \<^verbatim>\<open>re.IGNORECASE\<close>, then \<^verbatim>\<open>\s*\<close>, then a group. The functions below follow the
  backtracking matcher: a greedy \<^verbatim>\<open>\s*\<close> first takes a whitespace character and gives it
  back when the rest of the pattern fails after it.
\<close>

fun match_label :: "string \<Rightarrow> string \<Rightarrow> string option" where
  "match_label [] s = Some s"
| "match_label (p # ps) [] = None"
| "match_label (p # ps) (c # cs) =
     (if py_lower_char c = py_lower_char p then match_label ps cs else None)"

fun skip_ws :: "(string \<Rightarrow> 'a option) \<Rightarrow> string \<Rightarrow> 'a option" where
  "skip_ws m [] = m []"
| "skip_ws m (c # cs) =
     (if py_isspace c
      then (case skip_ws m cs of Some v \<Rightarrow> Some v | None \<Rightarrow> m (c # cs))
      else m (c # cs))"

text \<open>
  The group \<^verbatim>\<open>(.+?)\<close> followed by \<^verbatim>\<open>(?:\n|$)\<close>: at least one character other than a
  newline, then lazily more of them until a newline or the end of the text follows.
\<close>

fun until_eol :: "string \<Rightarrow> string" where
  "until_eol [] = []"
| "until_eol (c # cs) = (if c = newline then [] else c # until_eol cs)"

fun line_group :: "string \<Rightarrow> string option" where
  "line_group [] = None"
| "line_group (c # cs) = (if c = newline then None else Some (c # until_eol cs))"

text \<open>The group \<^verbatim>\<open>(\d+)\<close>: the longest non-empty run of digits.\<close>

definition digit_group :: "string \<Rightarrow> string option" where
  "digit_group s = (let d = takeWhile is_digit s in if d = [] then None else Some d)"

definition match_field :: "string \<Rightarrow> (string \<Rightarrow> 'a option) \<Rightarrow> string \<Rightarrow> 'a option" where
  "match_field label grp s =
     (case match_label label s of None \<Rightarrow> None | Some rest \<Rightarrow> skip_ws grp rest)"

fun re_search :: "(string \<Rightarrow> 'a option) \<Rightarrow> string \<Rightarrow> 'a option" where
  "re_search m [] = m []"
| "re_search m (c # cs) =
     (case m (c # cs) of Some v \<Rightarrow> Some v | None \<Rightarrow> re_search m cs)"

text \<open>
  \<^verbatim>\<open>re.search(r'<Label>:\s*(.+?)(?:\n|$)', content, re.IGNORECASE)\<close> and
  \<^verbatim>\<open>re.search(r'<Label>:\s*(\d+)', content, re.IGNORECASE)\<close>, each returning group 1.
\<close>

definition search_line :: "string \<Rightarrow> string \<Rightarrow> string option" where
  "search_line label content = re_search (match_field label line_group) content"

definition search_digits :: "string \<Rightarrow> string \<Rightarrow> string option" where
  "search_digits label content = re_search (match_field label digit_group) content"

section \<open>Records and the parser\<close>

record Gag =
  title :: string
  season :: "int option"
  episode :: "string option"
  episode_order :: "int option"
  cutaway_owner :: "string option"
  description :: "string option"
  filename :: string

text \<open>
  A file to parse: \<^verbatim>\<open>filepath.stem\<close>, \<^verbatim>\<open>filepath.name\<close> and the text read from it.
  The model starts from the decoded text; failures of opening or reading the file are
  outside it.
\<close>

record GagFile =
  path_stem :: string
  path_name :: string
  content :: string

text \<open>
  The body of the \<^verbatim>\<open>try\<close> block of \<^verbatim>\<open>parse_gag_file\<close>, statement by statement. The two
  calls of \<^verbatim>\<open>int\<close> can raise; an exception leaves the block at once.
\<close>

definition parse_gag_file_try :: "GagFile \<Rightarrow> py_error + Gag" where
  "parse_gag_file_try f =
     (let gag = \<lparr>title = path_stem f, season = None, episode = None, episode_order = None,
                 cutaway_owner = None, description = None, filename = path_name f\<rparr>;
          gag = (case search_line ''Title:'' (content f) of
                   Some v \<Rightarrow> gag\<lparr>title := py_strip v\<rparr> | None \<Rightarrow> gag)
      in case (case search_digits ''Season:'' (content f) of
                 Some v \<Rightarrow> (case py_int v of
                              Inr n \<Rightarrow> Inr (gag\<lparr>season := Some n\<rparr>) | Inl e \<Rightarrow> Inl e)
               | None \<Rightarrow> Inr gag) of
           Inl e \<Rightarrow> Inl e
         | Inr gag \<Rightarrow>
            (let gag = (case search_line ''Episode:'' (content f) of
                          Some v \<Rightarrow> gag\<lparr>episode := Some (py_strip v)\<rparr> | None \<Rightarrow> gag)
             in case (case search_digits ''Episode Order:'' (content f) of
                        Some v \<Rightarrow> (case py_int v of
                                     Inr n \<Rightarrow> Inr (gag\<lparr>episode_order := Some n\<rparr>)
                                   | Inl e \<Rightarrow> Inl e)
                      | None \<Rightarrow> Inr gag) of
                  Inl e \<Rightarrow> Inl e
                | Inr gag \<Rightarrow>
                   (let gag = (case search_line ''Cutaway Owner:'' (content f) of
                                 Some v \<Rightarrow> gag\<lparr>cutaway_owner := Some (py_strip v)\<rparr>
                               | None \<Rightarrow> gag);
                        gag = (case search_line ''Description:'' (content f) of
                                 Some v \<Rightarrow> gag\<lparr>description := Some (py_strip v)\<rparr>
                               | None \<Rightarrow> gag)
                    in Inr gag)))"

text \<open>
  \<^verbatim>\<open>parse_gag_file\<close>: the \<^verbatim>\<open>except Exception\<close> clause prints the error and returns
  \<^verbatim>\<open>None\<close>.
\<close>

definition parse_gag_file :: "GagFile \<Rightarrow> Gag option" where
  "parse_gag_file f = (case parse_gag_file_try f of Inr gag \<Rightarrow> Some gag | Inl e \<Rightarrow> None)"

section \<open>Keywords and the inverted index\<close>

text \<open>
  \<^verbatim>\<open>\b\<close> holds between two positions of which exactly one holds a \<^verbatim>\<open>\w\<close> character;
  before the first and after the last character there is none.
\<close>

fun word_char :: "char option \<Rightarrow> bool" where
  "word_char None = False"
| "word_char (Some c) = is_word c"

definition word_boundary :: "char option \<Rightarrow> char option \<Rightarrow> bool" where
  "word_boundary prev nxt = (word_char prev \<noteq> word_char nxt)"

text \<open>
  \<^verbatim>\<open>[a-z]+\b\<close> once a first letter \<open>l\<close> is taken: greedily one more letter, and where
  the rest fails after it, the boundary is tried here. The result is the letters taken after
  \<open>l\<close> and the text left.
\<close>

fun az_more :: "char \<Rightarrow> string \<Rightarrow> (string \<times> string) option" where
  "az_more l [] = (if word_boundary (Some l) None then Some ([], []) else None)"
| "az_more l (c # cs) =
     (case (if is_az c then az_more c cs else None) of
        Some (w, r) \<Rightarrow> Some (c # w, r)
      | None \<Rightarrow> if word_boundary (Some l) (Some c) then Some ([], c # cs) else None)"

text \<open>\<^verbatim>\<open>\b[a-z]+\b\<close> at one position, \<open>prev\<close> being the character in front of it.\<close>

fun match_word :: "char option \<Rightarrow> string \<Rightarrow> (string \<times> string) option" where
  "match_word prev [] = None"
| "match_word prev (c # cs) =
     (if word_boundary prev (Some c) \<and> is_az c
      then (case az_more c cs of Some (w, r) \<Rightarrow> Some (c # w, r) | None \<Rightarrow> None)
      else None)"

lemma az_more_length: "az_more l s = Some (w, r) \<Longrightarrow> length r \<le> length s"
proof (induction s arbitrary: l w r)
  case Nil
  then show ?case by (simp split: if_splits)
next
  case (Cons c cs)
  show ?case
  proof (cases "if is_az c then az_more c cs else None")
    case None
    with Cons.prems show ?thesis by (auto split: if_splits)
  next
    case (Some p)
    obtain w' r' where p: "p = (w', r')" by (cases p)
    with Some have "az_more c cs = Some (w', r')" by (simp split: if_splits)
    from Cons.IH [OF this] Some p Cons.prems show ?thesis by simp
  qed
qed

lemma match_word_length: "match_word b s = Some (w, r) \<Longrightarrow> length r < length s"
  by (cases s) (auto split: if_splits option.splits dest: az_more_length)

text \<open>
  \<^verbatim>\<open>re.findall(r'\b[a-z]+\b', s)\<close>: the matches from left to right, each search starting
  where the last match ended.
\<close>

function findall_words :: "char option \<Rightarrow> string \<Rightarrow> string list" where
  "findall_words prev [] = []"
| "findall_words prev (c # cs) =
     (case match_word prev (c # cs) of
        Some (w, r) \<Rightarrow> w # findall_words (Some (last w)) r
      | None \<Rightarrow> findall_words (Some c) cs)"
  by pat_completeness auto
termination
  by (relation "measure (\<lambda>(b, s). length s)")
    (auto simp del: match_word.simps dest: match_word_length)

definition stop_words :: "string list" where
  "stop_words =
     [''the'', ''and'', ''for'', ''with'', ''from'', ''his'', ''her'', ''that'',
      ''this'', ''when'', ''where'', ''what'', ''how'', ''who'', ''which'', ''why'',
      ''gets'', ''tells'', ''know'', ''find'', ''make'', ''does'', ''says'', ''during'']"

definition extract_keywords :: "string \<Rightarrow> nat \<Rightarrow> string list" where
  "extract_keywords text min_length =
     (let words = findall_words None (py_lower text)
      in filter (\<lambda>w. length w \<ge> min_length \<and> w \<notin> set stop_words) words)"

text \<open>
  The index is a dictionary from tokens to sets of titles; \<open>index_add\<close> is
  \<^verbatim>\<open>if k not in index: index[k] = set()\<close> followed by \<^verbatim>\<open>index[k].add(t)\<close>.
\<close>

type_synonym index_map = "string \<rightharpoonup> string set"

definition index_add :: "string \<Rightarrow> string \<Rightarrow> index_map \<Rightarrow> index_map" where
  "index_add k t idx = idx(k \<mapsto> insert t (case idx k of None \<Rightarrow> {} | Some ts \<Rightarrow> ts))"

definition index_gag :: "index_map \<Rightarrow> Gag \<Rightarrow> index_map" where
  "index_gag idx gag =
     (let idx = (if truthy (cutaway_owner gag)
                 then index_add (py_lower (the (cutaway_owner gag))) (title gag) idx
                 else idx)
      in if truthy (description gag)
         then foldl (\<lambda>i word. index_add word (title gag) i) idx
                (extract_keywords (the (description gag)) 3)
         else idx)"

section \<open>The database\<close>

text \<open>
  \<^verbatim>\<open>self.gags\<close> is a dictionary, which keeps its keys in the order of their first
  insertion: an association list with distinct keys. \<open>dict_set\<close> is \<^verbatim>\<open>d[k] = v\<close>.
\<close>

fun dict_set :: "'k \<Rightarrow> 'v \<Rightarrow> ('k \<times> 'v) list \<Rightarrow> ('k \<times> 'v) list" where
  "dict_set k v [] = [(k, v)]"
| "dict_set k v (p # ps) = (if fst p = k then (k, v) # ps else p # dict_set k v ps)"

record GagDatabase =
  gags :: "(string \<times> Gag) list"
  index :: index_map

definition main_characters :: "string list" where
  "main_characters =
     [''peter griffin'', ''lois griffin'', ''stewie griffin'',
      ''chris griffin'', ''meg griffin'', ''brian griffin'',
      ''quagmire'', ''joe swanson'', ''cleveland brown'']"

definition new_database :: GagDatabase where
  "new_database = \<lparr>gags = [], index = Map.empty\<rparr>"

text \<open>
  One round of the loop of \<^verbatim>\<open>load_all_gags\<close>. The test \<^verbatim>\<open>if gag:\<close> fails on
  \<^verbatim>\<open>None\<close>, which skips the file, and holds for every instance of the data class.
\<close>

definition load_gag :: "GagDatabase \<Rightarrow> GagFile \<Rightarrow> GagDatabase" where
  "load_gag db f =
     (case parse_gag_file f of
        None \<Rightarrow> db
      | Some gag \<Rightarrow>
          \<lparr>gags = dict_set (title gag) gag (gags db), index = index_gag (index db) gag\<rparr>)"

definition load_all_gags :: "GagFile list \<Rightarrow> GagDatabase" where
  "load_all_gags gag_files = foldl load_gag new_database gag_files"

text \<open>
  \<^verbatim>\<open>search\<close>. The set \<^verbatim>\<open>results\<close> holds titles; sorting a set gives its elements once
  each in ascending order, whatever order the set is read in. \<^verbatim>\<open>self.gags[title]\<close> raises
  \<^verbatim>\<open>KeyError\<close> on a missing key, which is \<open>None\<close> here.
\<close>

definition gag_match :: "GagDatabase \<Rightarrow> string \<Rightarrow> string \<Rightarrow> Gag \<Rightarrow> bool" where
  "gag_match db query_lower search_in gag =
     ((search_in \<in> set [''character'', ''all'']
         \<and> truthy (cutaway_owner gag)
         \<and> py_in query_lower (py_lower (the (cutaway_owner gag))))
      \<or> (search_in \<in> set [''description'', ''all'']
         \<and> ((truthy (description gag)
               \<and> py_in query_lower (py_lower (the (description gag))))
             \<or> (case index db query_lower of
                   None \<Rightarrow> False
                 | Some ts \<Rightarrow> title gag \<in> ts))))"

definition search :: "GagDatabase \<Rightarrow> string \<Rightarrow> string \<Rightarrow> Gag list option" where
  "search db query search_in =
     (let query_lower = py_lower query;
          results = map title (filter (gag_match db query_lower search_in) (map snd (gags db)))
      in those (map (map_of (gags db)) (sort (remdups results))))"

definition is_main :: "string \<Rightarrow> bool" where
  "is_main owner_lower = list_ex (\<lambda>main. py_in main owner_lower) main_characters"

definition find_non_main_character_gags :: "GagDatabase \<Rightarrow> Gag list" where
  "find_non_main_character_gags db =
     sort_key title
       (filter (\<lambda>gag. truthy (cutaway_owner gag)
                       \<and> \<not> is_main (py_lower (the (cutaway_owner gag))))
          (map snd (gags db)))"

section \<open>Validation\<close>

text \<open>
  The report of \<^verbatim>\<open>validate_data\<close>. The season range starts as \<^verbatim>\<open>(inf, -inf)\<close> and is
  reported as \<^verbatim>\<open>None\<close> when it is still that at the end: \<open>None\<close> stands for it
  throughout. The set of characters is kept as a list and sorted without duplicates at the
  end.
\<close>

record Stats =
  total_gags :: nat
  missing_season :: "string list"
  missing_episode :: "string list"
  missing_owner :: "string list"
  missing_description :: "string list"
  missing_multiple_fields :: "(string \<times> string list) list"
  season_range :: "(int \<times> int) option"
  characters :: "string list"
  absurdist_gags :: "(string \<times> string \<times> string) list"

text \<open>
  The body of the loop of \<^verbatim>\<open>validate_data\<close>, block by block. The four checks carry the
  local list \<^verbatim>\<open>fields_missing\<close> and the report.
\<close>

definition check_season :: "Gag \<Rightarrow> string list \<times> Stats \<Rightarrow> string list \<times> Stats" where
  "check_season gag = (\<lambda>(fields_missing, stats).
     case season gag of
       None \<Rightarrow> (fields_missing @ [''season''],
                 stats\<lparr>missing_season := missing_season stats @ [title gag]\<rparr>)
     | Some s \<Rightarrow> (fields_missing,
                  stats\<lparr>season_range :=
                    (case season_range stats of
                       None \<Rightarrow> Some (s, s)
                     | Some (lo, hi) \<Rightarrow> Some (min lo s, max hi s))\<rparr>))"

definition check_episode :: "Gag \<Rightarrow> string list \<times> Stats \<Rightarrow> string list \<times> Stats" where
  "check_episode gag = (\<lambda>(fields_missing, stats).
     if episode gag = None
     then (fields_missing @ [''episode''],
           stats\<lparr>missing_episode := missing_episode stats @ [title gag]\<rparr>)
     else (fields_missing, stats))"

definition check_owner :: "Gag \<Rightarrow> string list \<times> Stats \<Rightarrow> string list \<times> Stats" where
  "check_owner gag = (\<lambda>(fields_missing, stats).
     case cutaway_owner gag of
       None \<Rightarrow> (fields_missing @ [''owner''],
                 stats\<lparr>missing_owner := missing_owner stats @ [title gag]\<rparr>)
     | Some ow \<Rightarrow> (fields_missing, stats\<lparr>characters := characters stats @ [ow]\<rparr>))"

definition check_description :: "Gag \<Rightarrow> string list \<times> Stats \<Rightarrow> string list \<times> Stats" where
  "check_description gag = (\<lambda>(fields_missing, stats).
     if description gag = None
     then (fields_missing @ [''description''],
           stats\<lparr>missing_description := missing_description stats @ [title gag]\<rparr>)
     else (fields_missing, stats))"

definition check_multiple :: "Gag \<Rightarrow> string list \<times> Stats \<Rightarrow> Stats" where
  "check_multiple gag = (\<lambda>(fields_missing, stats).
     if length fields_missing > 1
     then stats\<lparr>missing_multiple_fields :=
            missing_multiple_fields stats @ [(title gag, fields_missing)]\<rparr>
     else stats)"

definition check_absurdist :: "Gag \<Rightarrow> Stats \<Rightarrow> Stats" where
  "check_absurdist gag stats =
     (if truthy (cutaway_owner gag)
         \<and> \<not> is_main (py_lower (the (cutaway_owner gag)))
         \<and> truthy (description gag)
      then stats\<lparr>absurdist_gags := absurdist_gags stats @
             [(title gag, the (cutaway_owner gag), the (description gag))]\<rparr>
      else stats)"

definition validate_gag :: "Stats \<Rightarrow> Gag \<Rightarrow> Stats" where
  "validate_gag stats gag =
     check_absurdist gag
       (check_multiple gag
          (check_description gag
             (check_owner gag
                (check_episode gag
                   (check_season gag ([], stats))))))"

definition validate_data :: "GagDatabase \<Rightarrow> Stats" where
  "validate_data db =
     (let stats = \<lparr>total_gags = length (gags db), missing_season = [], missing_episode = [],
                   missing_owner = [], missing_description = [], missing_multiple_fields = [],
                   season_range = None, characters = [], absurdist_gags = []\<rparr>;
          stats = foldl validate_gag stats (map snd (gags db))
      in stats\<lparr>characters := sort (remdups (characters stats))\<rparr>)"

section \<open>Notions used to state the properties\<close>

text \<open>The six labels the parser looks for, each with its colon.\<close>

definition field_labels :: "string list" where
  "field_labels =
     [''Title:'', ''Season:'', ''Episode:'', ''Episode Order:'', ''Cutaway Owner:'',
      ''Description:'']"

text \<open>The maximal runs of characters of a class, from left to right.\<close>

function runs :: "(char \<Rightarrow> bool) \<Rightarrow> string \<Rightarrow> string list" where
  "runs P [] = []"
| "runs P (c # cs) =
     (if P c then takeWhile P (c # cs) # runs P (dropWhile P cs) else runs P cs)"
  by pat_completeness auto
termination
  by (relation "measure (\<lambda>(P, s). length s)") (auto simp: less_Suc_eq_le length_dropWhile_le)

text \<open>
  The tokens under which \<^verbatim>\<open>_index_gag\<close> files a record, and the titles filed under a
  token.
\<close>

definition gag_tokens :: "Gag \<Rightarrow> string list" where
  "gag_tokens gag =
     (if truthy (cutaway_owner gag) then [py_lower (the (cutaway_owner gag))] else [])
     @ (if truthy (description gag) then extract_keywords (the (description gag)) 3 else [])"

definition titles_of :: "index_map \<Rightarrow> string \<Rightarrow> string set" where
  "titles_of idx k = (case idx k of None \<Rightarrow> {} | Some ts \<Rightarrow> ts)"

text \<open>
  The store built by loading: its keys are distinct and each record is stored under its
  title.
\<close>

definition store_ok :: "(string \<times> Gag) list \<Rightarrow> bool" where
  "store_ok d = (distinct (map fst d) \<and> (\<forall>(k, g) \<in> set d. title g = k))"

text \<open>
  The four fields the validator looks at, how many of them a record misses, and in how many
  of the four lists of the report a title occurs.
\<close>

definition missing_flags :: "Gag \<Rightarrow> bool list" where
  "missing_flags gag =
     [season gag = None, episode gag = None, cutaway_owner gag = None, description gag = None]"

definition missing_count :: "Gag \<Rightarrow> nat" where
  "missing_count gag = length (filter id (missing_flags gag))"

definition missing_lists :: "Stats \<Rightarrow> string list list" where
  "missing_lists stats =
     [missing_season stats, missing_episode stats, missing_owner stats, missing_description stats]"

definition lists_holding :: "Stats \<Rightarrow> string \<Rightarrow> nat" where
  "lists_holding stats t = length (filter (\<lambda>l. t \<in> set l) (missing_lists stats))"

text \<open>
  The rules of a search, per scope. A query matches an owner or a description when the
  field holds a non-empty string in which the query occurs, both lower-cased; it matches
  through the index when the lower-cased query is a token filed with the title of the record.
\<close>

definition owner_rule :: "string \<Rightarrow> Gag \<Rightarrow> bool" where
  "owner_rule query gag =
     (\<exists>ow pre post. cutaway_owner gag = Some ow \<and> ow \<noteq> []
        \<and> py_lower ow = pre @ py_lower query @ post)"

definition description_rule :: "GagDatabase \<Rightarrow> string \<Rightarrow> Gag \<Rightarrow> bool" where
  "description_rule db query gag =
     ((\<exists>d pre post. description gag = Some d \<and> d \<noteq> []
         \<and> py_lower d = pre @ py_lower query @ post)
      \<or> (\<exists>ts. index db (py_lower query) = Some ts \<and> title gag \<in> ts))"

definition scope_rule :: "GagDatabase \<Rightarrow> string \<Rightarrow> string \<Rightarrow> Gag \<Rightarrow> bool" where
  "scope_rule db query search_in gag =
     (if search_in = ''character'' then owner_rule query gag
      else if search_in = ''description'' then description_rule db query gag
      else owner_rule query gag \<or> description_rule db query gag)"

text \<open>
  Tokenization as the specification words it: the maximal runs of lower-case letters of the
  lower-cased text, without the short words and the stop words.
\<close>

definition spec_extract_keywords :: "string \<Rightarrow> nat \<Rightarrow> string list" where
  "spec_extract_keywords text min_length =
     filter (\<lambda>w. length w \<ge> min_length \<and> w \<notin> set stop_words) (runs is_az (py_lower text))"

text \<open>The records of the files that the parser turns into a record, in their order.\<close>

definition parsed :: "GagFile list \<Rightarrow> Gag list" where
  "parsed fs = List.map_filter parse_gag_file fs"

text \<open>
  The text that follows the leftmost occurrence of a label, the label matched in any case
  and anywhere in the text; none when the label does not occur.
\<close>

fun after_label :: "string \<Rightarrow> string \<Rightarrow> string option" where
  "after_label label [] = match_label label []"
| "after_label label (c # cs) =
     (case match_label label (c # cs) of
        Some rest \<Rightarrow> Some rest
      | None \<Rightarrow> after_label label cs)"

text \<open>
  The rest of a line, the blanks (whitespace other than the newline), and the digits that
  follow the blanks at the start of a text.
\<close>

definition line_of :: "string \<Rightarrow> string" where
  "line_of s = takeWhile (\<lambda>c. c \<noteq> newline) s"

definition is_blank :: "char \<Rightarrow> bool" where
  "is_blank c = (py_isspace c \<and> c \<noteq> newline)"

definition leading_digits :: "string \<Rightarrow> string" where
  "leading_digits s = takeWhile is_digit (dropWhile is_blank s)"

text \<open>
  The rule of a text field: unset when its label occurs nowhere; and when the line of the
  leftmost occurrence of the label goes on, after the label, with more than whitespace, the
  field is the rest of that line, stripped.
\<close>

definition text_field_rule :: "string \<Rightarrow> string \<Rightarrow> string option \<Rightarrow> bool" where
  "text_field_rule label text field =
     ((\<not> py_in (py_lower label) (py_lower text) \<longrightarrow> field = None)
      \<and> (\<forall>rest. after_label label text = Some rest \<and> py_strip (line_of rest) \<noteq> []
            \<longrightarrow> field = Some (py_strip (line_of rest))))"

text \<open>
  An occurrence of a label with digits: the text holds the label in any case, then
  whitespace, then a non-empty run of digits that no digit follows.
\<close>

definition labelled_digits :: "string \<Rightarrow> string \<Rightarrow> string \<Rightarrow> bool" where
  "labelled_digits label text ds =
     (\<exists>pre lab ws post. text = pre @ lab @ ws @ ds @ post
        \<and> py_lower lab = py_lower label \<and> list_all py_isspace ws
        \<and> ds \<noteq> [] \<and> list_all is_digit ds \<and> (post = [] \<or> \<not> is_digit (hd post)))"

text \<open>
  The rule of a numeric field: unset when the label occurs nowhere with digits, and else
  the number that the digits of an occurrence write; and when the line of the leftmost
  occurrence of the label goes on, after the label and blanks, with digits, the field is
  the number that these digits write.
\<close>

definition numeric_field_rule :: "string \<Rightarrow> string \<Rightarrow> int option \<Rightarrow> bool" where
  "numeric_field_rule label text field =
     ((case field of
         None \<Rightarrow> (\<forall>ds. \<not> labelled_digits label text ds)
       | Some n \<Rightarrow> (\<exists>ds. labelled_digits label text ds \<and> n = digits_value ds))
      \<and> (\<forall>rest. after_label label text = Some rest \<and> leading_digits rest \<noteq> []
            \<longrightarrow> field = Some (digits_value (leading_digits rest))))"

text \<open>The digits that the pattern of a numeric field captures are too many to convert.\<close>

definition digits_over_limit :: "string \<Rightarrow> string \<Rightarrow> bool" where
  "digits_over_limit label text =
     (case search_digits label text of
        None \<Rightarrow> False
      | Some ds \<Rightarrow> length ds > int_max_str_digits)"

text \<open>
  A label as the specification words it: some line of the text starts with the label, in
  any case.
\<close>

fun split_lines :: "string \<Rightarrow> string list" where
  "split_lines [] = [[]]"
| "split_lines (c # cs) =
     (if c = newline then [] # split_lines cs
      else (case split_lines cs of [] \<Rightarrow> [[c]] | l # ls \<Rightarrow> (c # l) # ls))"

definition has_label_line :: "string \<Rightarrow> string \<Rightarrow> bool" where
  "has_label_line label text =
     list_ex (\<lambda>line. starts_with (py_lower label) (py_lower line)) (split_lines text)"

section \<open>Evaluation\<close>

lemmas eval_defs = cp_def newline_def is_upper_def py_lower_char_def py_lower_def py_isspace_def
  is_digit_def is_az_def is_word_def py_strip_def digit_val_def digits_value_def
  int_max_str_digits_def py_int_def digit_group_def match_field_def search_line_def
  search_digits_def parse_gag_file_try_def parse_gag_file_def word_boundary_def
  stop_words_def extract_keywords_def index_add_def index_gag_def new_database_def load_gag_def
  load_all_gags_def gag_match_def search_def main_characters_def is_main_def
  find_non_main_character_gags_def check_season_def check_episode_def check_owner_def
  check_description_def check_multiple_def check_absurdist_def validate_gag_def validate_data_def
  field_labels_def

lemma py_lower_Nil [simp]: "py_lower [] = []"
  by (simp add: py_lower_def)

lemma py_lower_Cons [simp]: "py_lower (c # cs) = py_lower_char c # py_lower cs"
  by (simp add: py_lower_def)

text \<open>Lower-casing an upper-case letter adds 32 to its code point.\<close>

lemma py_lower_char_code: "is_upper c \<Longrightarrow> cp (py_lower_char c) = cp c + 32"
proof (cases c)
  case (Char b0 b1 b2 b3 b4 b5 b6 b7)
  assume u: "is_upper c"
  have "\<not> b5"
  proof
    assume b5
    with u Char show False
      by (cases b0; cases b1; cases b2; cases b3; cases b4; cases b6; cases b7;
          simp add: is_upper_def cp_def)
  qed
  with u Char show ?thesis
    by (simp add: py_lower_char_def cp_def)
qed

section \<open>The parser\<close>

text \<open>
  The parser returns no record exactly when the digits captured for the season or for the
  episode order are too many to convert, and else the record of the six captures.
\<close>

lemma parse_gag_file_cases:
  "parse_gag_file f =
     (if digits_over_limit ''Season:'' (content f)
         \<or> digits_over_limit ''Episode Order:'' (content f)
      then None
      else Some \<lparr>title = (case search_line ''Title:'' (content f) of
                            None \<Rightarrow> path_stem f | Some v \<Rightarrow> py_strip v),
                 season = map_option digits_value (search_digits ''Season:'' (content f)),
                 episode = map_option py_strip (search_line ''Episode:'' (content f)),
                 episode_order =
                   map_option digits_value (search_digits ''Episode Order:'' (content f)),
                 cutaway_owner =
                   map_option py_strip (search_line ''Cutaway Owner:'' (content f)),
                 description = map_option py_strip (search_line ''Description:'' (content f)),
                 filename = path_name f\<rparr>)"
  by (cases "search_line ''Title:'' (content f)";
      cases "search_digits ''Season:'' (content f)";
      cases "search_line ''Episode:'' (content f)";
      cases "search_digits ''Episode Order:'' (content f)";
      cases "search_line ''Cutaway Owner:'' (content f)";
      cases "search_line ''Description:'' (content f)";
      simp add: parse_gag_file_def parse_gag_file_try_def digits_over_limit_def py_int_def)

lemma set_parsed: "g \<in> set (parsed fs) \<longleftrightarrow> (\<exists>f \<in> set fs. parse_gag_file f = Some g)"
  by (induction fs) (auto simp: parsed_def map_filter_simps split: option.splits)

section \<open>The parser on texts without labels\<close>

lemma starts_with_in: "starts_with a s \<Longrightarrow> py_in a s"
  by (cases s; cases a) auto

lemma match_label_starts:
  "match_label label s = Some r \<Longrightarrow> starts_with (py_lower label) (py_lower s)"
  by (induction label s rule: match_label.induct) (auto split: if_splits)

lemma match_field_in:
  "match_field label grp s = Some v \<Longrightarrow> py_in (py_lower label) (py_lower s)"
  by (auto simp: match_field_def split: option.splits dest: match_label_starts starts_with_in)

lemma re_search_in:
  "re_search (match_field label grp) s = Some v \<Longrightarrow> py_in (py_lower label) (py_lower s)"
proof (induction s)
  case Nil
  then show ?case by (auto dest: match_field_in)
next
  case (Cons c cs)
  show ?case
  proof (cases "match_field label grp (c # cs)")
    case None
    with Cons show ?thesis by simp
  next
    case (Some w)
    from match_field_in [OF this] show ?thesis .
  qed
qed

lemma re_search_absent:
  "\<not> py_in (py_lower label) (py_lower s) \<Longrightarrow> re_search (match_field label grp) s = None"
  using re_search_in [of label grp s] by (cases "re_search (match_field label grp) s") auto

text \<open>
  C9, as amended. A text in which none of the six labels with its colon occurs anywhere,
  compared without regard to case and also inside longer words, is parsed to the record
  whose title is the stem of the file name and whose season, episode, episode order, owner
  and description are unset.
\<close>

theorem parse_without_labels:
  assumes "\<forall>label \<in> set field_labels. \<not> py_in (py_lower label) (py_lower (content f))"
  shows "parse_gag_file f =
           Some \<lparr>title = path_stem f, season = None, episode = None, episode_order = None,
                 cutaway_owner = None, description = None, filename = path_name f\<rparr>"
proof -
  from assms have
    "search_line ''Title:'' (content f) = None"
    "search_digits ''Season:'' (content f) = None"
    "search_line ''Episode:'' (content f) = None"
    "search_digits ''Episode Order:'' (content f) = None"
    "search_line ''Cutaway Owner:'' (content f) = None"
    "search_line ''Description:'' (content f) = None"
    unfolding search_line_def search_digits_def field_labels_def
    by (simp_all add: re_search_absent)
  then show ?thesis by (simp add: parse_gag_file_cases digits_over_limit_def)
qed

theorem parse_without_labels_witness:
  "parse_gag_file \<lparr>path_stem = ''joke'', path_name = ''joke.txt'',
                    content = ''Peter: hi, Lois''\<rparr> =
     Some \<lparr>title = ''joke'', season = None, episode = None, episode_order = None,
           cutaway_owner = None, description = None, filename = ''joke.txt''\<rparr>"
proof -
  let ?f = "\<lparr>path_stem = ''joke'', path_name = ''joke.txt'', content = ''Peter: hi, Lois''\<rparr>"
  have h: "\<forall>label \<in> set field_labels. \<not> py_in (py_lower label) (py_lower (content ?f))"
    by (simp add: field_labels_def py_lower_char_def is_upper_def cp_def)
  show ?thesis using parse_without_labels [OF h] by simp
qed

text \<open>
  The claim as stated fails on a text without a line that starts with a label, in which a
  label ends a longer phrase: the episode is set.
\<close>

theorem parse_label_inside_sentence:
  "\<not> has_label_line ''Title:'' ''In this episode: Peter falls''
   \<and> \<not> has_label_line ''Season:'' ''In this episode: Peter falls''
   \<and> \<not> has_label_line ''Episode:'' ''In this episode: Peter falls''
   \<and> \<not> has_label_line ''Episode Order:'' ''In this episode: Peter falls''
   \<and> \<not> has_label_line ''Cutaway Owner:'' ''In this episode: Peter falls''
   \<and> \<not> has_label_line ''Description:'' ''In this episode: Peter falls''
   \<and> parse_gag_file \<lparr>path_stem = ''f'', path_name = ''f.txt'',
                      content = ''In this episode: Peter falls''\<rparr>
     = Some \<lparr>title = ''f'', season = None, episode = Some ''Peter falls'',
             episode_order = None, cutaway_owner = None, description = None,
             filename = ''f.txt''\<rparr>"
  by (simp add: eval_defs has_label_line_def)

section \<open>Owner tokens in description searches\<close>


section \<open>The index\<close>

lemma index_add_apply:
  "index_add k t idx k' = (if k' = k then Some (insert t (titles_of idx k)) else idx k')"
  by (simp add: index_add_def titles_of_def)

lemma index_add_words:
  "foldl (\<lambda>i w. index_add w t i) idx ws k =
     (if k \<in> set ws then Some (insert t (titles_of idx k)) else idx k)"
proof (induction ws arbitrary: idx)
  case Nil
  show ?case by simp
next
  case (Cons w ws)
  show ?case
    unfolding foldl_Cons Cons.IH
    by (auto simp: index_add_apply titles_of_def)
qed

lemma index_gag_tokens:
  "index_gag idx gag = foldl (\<lambda>i w. index_add w (title gag) i) idx (gag_tokens gag)"
  by (simp add: index_gag_def gag_tokens_def Let_def)

lemma index_gag_apply:
  "index_gag idx gag k =
     (if k \<in> set (gag_tokens gag) then Some (insert (title gag) (titles_of idx k)) else idx k)"
  by (simp add: index_gag_tokens index_add_words)

lemma index_gags_apply:
  "foldl index_gag idx gs k =
     (if \<exists>g \<in> set gs. k \<in> set (gag_tokens g)
      then Some (titles_of idx k \<union> {title g | g. g \<in> set gs \<and> k \<in> set (gag_tokens g)})
      else idx k)"
proof (induction gs arbitrary: idx)
  case Nil
  show ?case by simp
next
  case (Cons g gs)
  show ?case
    unfolding foldl_Cons Cons.IH
    by (auto simp: index_gag_apply titles_of_def)
qed

lemma index_gags_set:
  assumes "set gs = set gs'"
  shows "foldl index_gag idx gs = foldl index_gag idx gs'"
proof
  fix k
  show "foldl index_gag idx gs k = foldl index_gag idx gs' k"
    by (simp only: index_gags_apply assms)
qed

lemma load_index: "index (foldl load_gag db fs) = foldl index_gag (index db) (parsed fs)"
  by (induction fs arbitrary: db)
     (simp_all add: load_gag_def parsed_def map_filter_simps split: option.split)

lemma load_gags:
  "gags (foldl load_gag db fs)
     = foldl (\<lambda>d g. dict_set (title g) g d) (gags db) (parsed fs)"
  by (induction fs arbitrary: db)
     (simp_all add: load_gag_def parsed_def map_filter_simps split: option.split)

text \<open>
  C7. The index does not depend on the order in which the records are processed, nor on how
  often a record is processed: two runs of loading whose files give the same set of records
  build the same mapping from tokens to sets of titles.
\<close>

theorem index_order_independent:
  assumes "set (parsed fs) = set (parsed fs')"
  shows "index (load_all_gags fs) = index (load_all_gags fs')"
  unfolding load_all_gags_def load_index by (rule index_gags_set [OF assms])

theorem index_order_independent_witness:
  "index (load_all_gags
            [\<lparr>path_stem = ''a'', path_name = ''a.txt'', content = ''Cutaway Owner: Death''\<rparr>,
             \<lparr>path_stem = ''b'', path_name = ''b.txt'', content = ''Description: a talking dog''\<rparr>])
   = index (load_all_gags
            [\<lparr>path_stem = ''b'', path_name = ''b.txt'', content = ''Description: a talking dog''\<rparr>,
             \<lparr>path_stem = ''a'', path_name = ''a.txt'', content = ''Cutaway Owner: Death''\<rparr>,
             \<lparr>path_stem = ''b'', path_name = ''b.txt'', content = ''Description: a talking dog''\<rparr>])"
  by (rule index_order_independent)
     (simp add: eval_defs parsed_def map_filter_simps insert_commute)

section \<open>The store\<close>

lemma dict_set_keys: "set (map fst (dict_set k v d)) = insert k (set (map fst d))"
  by (induction d) auto

lemma dict_set_distinct: "distinct (map fst d) \<Longrightarrow> distinct (map fst (dict_set k v d))"
proof (induction d)
  case Nil
  show ?case by simp
next
  case (Cons p d)
  have "fst p \<noteq> k \<Longrightarrow> fst p \<notin> set (map fst (dict_set k v d))"
    using Cons.prems by (simp only: dict_set_keys) auto
  with Cons show ?case by auto
qed

lemma dict_set_entries: "set (dict_set k v d) \<subseteq> insert (k, v) (set d)"
  by (induction d) auto

lemma dict_set_ok: "store_ok d \<Longrightarrow> store_ok (dict_set (title g) g d)"
  unfolding store_ok_def using dict_set_entries [of "title g" g d]
  by (auto simp: dict_set_distinct)

lemma store_ok_foldl:
  "store_ok d \<Longrightarrow> store_ok (foldl (\<lambda>d g. dict_set (title g) g d) d gs)"
  by (induction gs arbitrary: d) (simp_all add: dict_set_ok)

lemma load_store_ok: "store_ok (gags (load_all_gags fs))"
  unfolding load_all_gags_def load_gags
  by (rule store_ok_foldl) (simp add: store_ok_def new_database_def)

lemma store_ok_lookup:
  assumes "store_ok d" and "g \<in> snd ` set d"
  shows "map_of d (title g) = Some g"
proof -
  from assms(2) obtain k where kg: "(k, g) \<in> set d" by force
  with assms(1) have "title g = k" by (auto simp: store_ok_def)
  with kg assms(1) show ?thesis by (simp add: store_ok_def)
qed

lemma store_ok_title_inj:
  assumes "store_ok d" and "g \<in> snd ` set d" and "g' \<in> snd ` set d" and "title g = title g'"
  shows "g = g'"
proof -
  have "Some g = map_of d (title g')"
    using store_ok_lookup [OF assms(1,2)] by (simp only: assms(4))
  also have "\<dots> = Some g'"
    by (rule store_ok_lookup [OF assms(1,3)])
  finally show ?thesis by (simp only: option.inject)
qed

section \<open>The validator\<close>

lemma check_steps:
  "check_season g (fm, st) =
     (fm @ (if season g = None then [''season''] else []),
      (case season g of
         None \<Rightarrow> st\<lparr>missing_season := missing_season st @ [title g]\<rparr>
       | Some s \<Rightarrow> st\<lparr>season_range := (case season_range st of None \<Rightarrow> Some (s, s)
                                        | Some (lo, hi) \<Rightarrow> Some (min lo s, max hi s))\<rparr>))"
  "check_episode g (fm, st) =
     (fm @ (if episode g = None then [''episode''] else []),
      (if episode g = None then st\<lparr>missing_episode := missing_episode st @ [title g]\<rparr> else st))"
  "check_owner g (fm, st) =
     (fm @ (if cutaway_owner g = None then [''owner''] else []),
      (case cutaway_owner g of
         None \<Rightarrow> st\<lparr>missing_owner := missing_owner st @ [title g]\<rparr>
       | Some ow \<Rightarrow> st\<lparr>characters := characters st @ [ow]\<rparr>))"
  "check_description g (fm, st) =
     (fm @ (if description g = None then [''description''] else []),
      (if description g = None then st\<lparr>missing_description := missing_description st @ [title g]\<rparr>
       else st))"
  by (simp_all add: check_season_def check_episode_def check_owner_def check_description_def
        split: option.split)

lemma validate_gag_missing:
  "missing_season (validate_gag st g) = missing_season st @ (if season g = None then [title g] else [])"
  "missing_episode (validate_gag st g) = missing_episode st @ (if episode g = None then [title g] else [])"
  "missing_owner (validate_gag st g) = missing_owner st @ (if cutaway_owner g = None then [title g] else [])"
  "missing_description (validate_gag st g) = missing_description st @ (if description g = None then [title g] else [])"
  by (simp_all add: validate_gag_def check_steps check_multiple_def check_absurdist_def
        split: option.split)

lemma validate_gag_multiple:
  "map fst (missing_multiple_fields (validate_gag st g))
     = map fst (missing_multiple_fields st) @ (if 1 < missing_count g then [title g] else [])"
  by (cases "season g"; cases "episode g"; cases "cutaway_owner g"; cases "description g";
      simp add: validate_gag_def check_steps check_multiple_def check_absurdist_def
        missing_count_def missing_flags_def)

lemma validate_foldl_missing:
  "missing_season (foldl validate_gag st gs) = missing_season st @ map title (filter (\<lambda>g. season g = None) gs)"
  "missing_episode (foldl validate_gag st gs) = missing_episode st @ map title (filter (\<lambda>g. episode g = None) gs)"
  "missing_owner (foldl validate_gag st gs) = missing_owner st @ map title (filter (\<lambda>g. cutaway_owner g = None) gs)"
  "missing_description (foldl validate_gag st gs) = missing_description st @ map title (filter (\<lambda>g. description g = None) gs)"
  "map fst (missing_multiple_fields (foldl validate_gag st gs))
     = map fst (missing_multiple_fields st) @ map title (filter (\<lambda>g. 1 < missing_count g) gs)"
  by (induction gs arbitrary: st) (simp_all add: validate_gag_missing validate_gag_multiple)

lemma validate_data_missing:
  "missing_season (validate_data db) = map title (filter (\<lambda>g. season g = None) (map snd (gags db)))"
  "missing_episode (validate_data db) = map title (filter (\<lambda>g. episode g = None) (map snd (gags db)))"
  "missing_owner (validate_data db) = map title (filter (\<lambda>g. cutaway_owner g = None) (map snd (gags db)))"
  "missing_description (validate_data db) = map title (filter (\<lambda>g. description g = None) (map snd (gags db)))"
  "map fst (missing_multiple_fields (validate_data db))
     = map title (filter (\<lambda>g. 1 < missing_count g) (map snd (gags db)))"
  by (simp_all add: validate_data_def Let_def validate_foldl_missing)

lemma title_in_filtered:
  assumes "store_ok d" and "g \<in> snd ` set d"
  shows "title g \<in> set (map title (filter P (map snd d))) \<longleftrightarrow> P g"
proof
  assume "title g \<in> set (map title (filter P (map snd d)))"
  then obtain g' where g': "g' \<in> snd ` set d" "P g'" "title g' = title g" by force
  from store_ok_title_inj [OF assms(1) g'(1) assms(2) g'(3)] g'(2) show "P g" by simp
next
  assume "P g"
  with assms(2) show "title g \<in> set (map title (filter P (map snd d)))" by auto
qed

text \<open>
  C5. For every record of a loaded store, the number of the four lists (missing season,
  missing episode, missing owner, missing description) that hold its title is the number of
  these four fields the record misses, and its title is in the list of records missing
  several fields exactly when that number is greater than one.
\<close>

theorem validate_missing_lists:
  assumes "gag \<in> snd ` set (gags (load_all_gags files))"
  shows "lists_holding (validate_data (load_all_gags files)) (title gag) = missing_count gag
       \<and> (title gag \<in> fst ` set (missing_multiple_fields (validate_data (load_all_gags files)))
            \<longleftrightarrow> 1 < missing_count gag)"
proof -
  let ?db = "load_all_gags files"
  note ok = load_store_ok [of files]
  have m: "title gag \<in> set (map fst (missing_multiple_fields (validate_data ?db)))
             \<longleftrightarrow> 1 < missing_count gag"
    unfolding validate_data_missing by (rule title_in_filtered [OF ok assms])
  have "lists_holding (validate_data ?db) (title gag) = missing_count gag"
    unfolding lists_holding_def missing_lists_def missing_count_def missing_flags_def
      validate_data_missing
    by (simp add: title_in_filtered [OF ok assms, simplified])
  with m show ?thesis by simp
qed

theorem validate_missing_lists_witness:
  "lists_holding
     (validate_data (load_all_gags
        [\<lparr>path_stem = ''moon'', path_name = ''moon.txt'',
          content = ''Title: Moon'' @ [newline] @ ''Season: 5'' @ [newline]
                    @ ''Cutaway Owner: Peter Griffin''\<rparr>])) ''Moon'' = 2
   \<and> ''Moon'' \<in> fst ` set (missing_multiple_fields
        (validate_data (load_all_gags
           [\<lparr>path_stem = ''moon'', path_name = ''moon.txt'',
             content = ''Title: Moon'' @ [newline] @ ''Season: 5'' @ [newline]
                       @ ''Cutaway Owner: Peter Griffin''\<rparr>])))"
proof -
  let ?fs = "[\<lparr>path_stem = ''moon'', path_name = ''moon.txt'',
               content = ''Title: Moon'' @ [newline] @ ''Season: 5'' @ [newline]
                         @ ''Cutaway Owner: Peter Griffin''\<rparr>]"
  let ?g = "\<lparr>title = ''Moon'', season = Some 5, episode = None, episode_order = None,
             cutaway_owner = Some ''Peter Griffin'', description = None,
             filename = ''moon.txt''\<rparr>"
  have h: "?g \<in> snd ` set (gags (load_all_gags ?fs))"
    by (simp add: eval_defs)
  from validate_missing_lists [OF h] show ?thesis
    by (simp add: missing_count_def missing_flags_def)
qed

section \<open>Substrings\<close>

lemma starts_with_iff: "starts_with a s \<longleftrightarrow> (\<exists>post. s = a @ post)"
  by (induction a s rule: starts_with.induct) auto

lemma py_in_iff: "py_in a s \<longleftrightarrow> (\<exists>pre post. s = pre @ a @ post)"
proof (induction s)
  case Nil
  show ?case by simp
next
  case (Cons c cs)
  show ?case
  proof
    assume "py_in a (c # cs)"
    then consider "starts_with a (c # cs)" | "py_in a cs" by auto
    then show "\<exists>pre post. c # cs = pre @ a @ post"
    proof cases
      case 1
      then obtain post where "c # cs = a @ post" by (auto simp: starts_with_iff)
      then have "c # cs = [] @ a @ post" by simp
      then show ?thesis by blast
    next
      case 2
      with Cons obtain pre post where "cs = pre @ a @ post" by auto
      then have "c # cs = (c # pre) @ a @ post" by simp
      then show ?thesis by blast
    qed
  next
    assume "\<exists>pre post. c # cs = pre @ a @ post"
    then obtain pre post where e: "c # cs = pre @ a @ post" by auto
    show "py_in a (c # cs)"
    proof (cases pre)
      case Nil
      with e have "starts_with a (c # cs)" by (auto simp: starts_with_iff)
      then show ?thesis by simp
    next
      case (Cons p pre')
      with e have "cs = pre' @ a @ post" by simp
      with Cons.IH have "py_in a cs" by blast
      then show ?thesis by simp
    qed
  qed
qed

section \<open>Records of non-main characters\<close>

lemma is_main_iff: "is_main s \<longleftrightarrow> (\<exists>m \<in> set main_characters. py_in m s)"
  by (simp add: is_main_def list_ex_iff)

lemma store_titles_inj:
  assumes "store_ok d"
  shows "inj_on title (snd ` set d)"
  by (rule inj_onI) (rule store_ok_title_inj [OF assms])

lemma store_values_distinct:
  assumes "store_ok d"
  shows "distinct (map snd d)"
proof -
  have "map fst d = map title (map snd d)"
    using assms by (auto simp: store_ok_def)
  with assms have "distinct (map title (map snd d))" by (simp add: store_ok_def)
  then show ?thesis using distinct_map [of title "map snd d"] by blast
qed

text \<open>
  C6, as amended. For every loaded store, \<^verbatim>\<open>find_non_main_character_gags\<close> returns
  exactly the records whose owner is a non-empty string in which, lower-cased, none of the
  nine main-character names occurs; each once, in ascending order of title. Every returned
  record has an owner, and "peter griffin" does not occur in its lower-cased owner.
\<close>

theorem find_non_main_exact:
  "set (find_non_main_character_gags (load_all_gags files))
     = {gag \<in> snd ` set (gags (load_all_gags files)).
          \<exists>ow. cutaway_owner gag = Some ow \<and> ow \<noteq> []
             \<and> (\<forall>main \<in> set main_characters. \<not> py_in main (py_lower ow))}
   \<and> distinct (find_non_main_character_gags (load_all_gags files))
   \<and> sorted (map title (find_non_main_character_gags (load_all_gags files)))
   \<and> (\<forall>gag \<in> set (find_non_main_character_gags (load_all_gags files)).
         \<exists>ow. cutaway_owner gag = Some ow
            \<and> \<not> (\<exists>pre post. py_lower ow = pre @ ''peter griffin'' @ post))"
proof -
  let ?db = "load_all_gags files"
  let ?P = "\<lambda>gag. truthy (cutaway_owner gag) \<and> \<not> is_main (py_lower (the (cutaway_owner gag)))"
  have P: "?P gag \<longleftrightarrow> (\<exists>ow. cutaway_owner gag = Some ow \<and> ow \<noteq> []
             \<and> (\<forall>main \<in> set main_characters. \<not> py_in main (py_lower ow)))" for gag :: Gag
    by (cases "cutaway_owner gag") (auto simp: is_main_iff)
  have s: "set (find_non_main_character_gags ?db) = {gag \<in> snd ` set (gags ?db). ?P gag}"
    by (auto simp: find_non_main_character_gags_def)
  have 1: "set (find_non_main_character_gags ?db)
     = {gag \<in> snd ` set (gags ?db).
          \<exists>ow. cutaway_owner gag = Some ow \<and> ow \<noteq> []
             \<and> (\<forall>main \<in> set main_characters. \<not> py_in main (py_lower ow))}"
    unfolding s by (simp only: P)
  have 2: "distinct (find_non_main_character_gags ?db)"
    unfolding find_non_main_character_gags_def
    by (simp add: store_values_distinct [OF load_store_ok])
  have 3: "sorted (map title (find_non_main_character_gags ?db))"
    unfolding find_non_main_character_gags_def by simp
  have pg: "''peter griffin'' \<in> set main_characters"
    by (simp add: main_characters_def)
  have 4: "\<forall>gag \<in> set (find_non_main_character_gags ?db).
         \<exists>ow. cutaway_owner gag = Some ow
            \<and> \<not> (\<exists>pre post. py_lower ow = pre @ ''peter griffin'' @ post)"
  proof
    fix gag
    assume "gag \<in> set (find_non_main_character_gags ?db)"
    with 1 obtain ow where ow: "cutaway_owner gag = Some ow"
      and no: "\<forall>main \<in> set main_characters. \<not> py_in main (py_lower ow)"
      by auto
    from no pg have "\<not> py_in ''peter griffin'' (py_lower ow)" by blast
    then have "\<not> (\<exists>pre post. py_lower ow = pre @ ''peter griffin'' @ post)"
      using py_in_iff [of "''peter griffin''" "py_lower ow"] by blast
    with ow show "\<exists>ow. cutaway_owner gag = Some ow
            \<and> \<not> (\<exists>pre post. py_lower ow = pre @ ''peter griffin'' @ post)"
      by blast
  qed
  from 1 2 3 4 show ?thesis by blast
qed

theorem find_non_main_exact_witness:
  "\<lparr>title = ''reaper'', season = None, episode = None, episode_order = None,
     cutaway_owner = Some ''Death'', description = None, filename = ''reaper.txt''\<rparr>
   \<in> set (find_non_main_character_gags (load_all_gags
        [\<lparr>path_stem = ''reaper'', path_name = ''reaper.txt'',
          content = ''Cutaway Owner: Death''\<rparr>,
         \<lparr>path_stem = ''moon'', path_name = ''moon.txt'',
          content = ''Cutaway Owner: Peter Griffin''\<rparr>]))"
proof -
  let ?fs = "[\<lparr>path_stem = ''reaper'', path_name = ''reaper.txt'',
               content = ''Cutaway Owner: Death''\<rparr>,
              \<lparr>path_stem = ''moon'', path_name = ''moon.txt'',
               content = ''Cutaway Owner: Peter Griffin''\<rparr>]"
  let ?g = "\<lparr>title = ''reaper'', season = None, episode = None, episode_order = None,
             cutaway_owner = Some ''Death'', description = None, filename = ''reaper.txt''\<rparr>"
  have "?g \<in> {gag \<in> snd ` set (gags (load_all_gags ?fs)).
          \<exists>ow. cutaway_owner gag = Some ow \<and> ow \<noteq> []
             \<and> (\<forall>main \<in> set main_characters. \<not> py_in main (py_lower ow))}"
    by (simp add: eval_defs)
  then show ?thesis
    by (simp only: find_non_main_exact [of ?fs, THEN conjunct1])
qed

text \<open>
  The claim as stated fails on an owner that is set to the empty string, as the parser sets
  it from a label followed by blanks only: the record has an owner, no main-character name
  occurs in it, and it is not returned.
\<close>

theorem find_non_main_empty_owner:
  "map snd (gags (load_all_gags
      [\<lparr>path_stem = ''blank'', path_name = ''blank.txt'', content = ''Cutaway Owner: ''\<rparr>]))
     = [\<lparr>title = ''blank'', season = None, episode = None, episode_order = None,
         cutaway_owner = Some [], description = None, filename = ''blank.txt''\<rparr>]
   \<and> \<not> is_main (py_lower [])
   \<and> find_non_main_character_gags (load_all_gags
      [\<lparr>path_stem = ''blank'', path_name = ''blank.txt'', content = ''Cutaway Owner: ''\<rparr>]) = []"
  by (simp add: eval_defs)

section \<open>Search\<close>

lemma truthy_in_iff:
  "truthy x \<and> py_in q (py_lower (the x))
     \<longleftrightarrow> (\<exists>s pre post. x = Some s \<and> s \<noteq> [] \<and> py_lower s = pre @ q @ post)"
  by (cases x) (auto simp: py_in_iff)

lemma index_hit_iff:
  "(case idx k of None \<Rightarrow> False | Some ts \<Rightarrow> t \<in> ts) \<longleftrightarrow> (\<exists>ts. idx k = Some ts \<and> t \<in> ts)"
  by (cases "idx k") auto

lemma gag_match_rule:
  assumes "search_in \<in> {''character'', ''description'', ''all''}"
  shows "gag_match db (py_lower query) search_in gag \<longleftrightarrow> scope_rule db query search_in gag"
proof -
  have o: "truthy (cutaway_owner gag)
             \<and> py_in (py_lower query) (py_lower (the (cutaway_owner gag)))
           \<longleftrightarrow> owner_rule query gag"
    unfolding owner_rule_def by (rule truthy_in_iff)
  have d: "(truthy (description gag)
              \<and> py_in (py_lower query) (py_lower (the (description gag))))
            \<or> (case index db (py_lower query) of None \<Rightarrow> False | Some ts \<Rightarrow> title gag \<in> ts)
           \<longleftrightarrow> description_rule db query gag"
    unfolding description_rule_def by (simp only: truthy_in_iff index_hit_iff)
  from assms consider "search_in = ''character''" | "search_in = ''description''"
    | "search_in = ''all''" by auto
  then show ?thesis
  proof cases
    case 1
    then show ?thesis unfolding gag_match_def scope_rule_def using o by simp
  next
    case 2
    then show ?thesis unfolding gag_match_def scope_rule_def using d by simp
  next
    case 3
    then show ?thesis unfolding gag_match_def scope_rule_def using o d by simp
  qed
qed

lemma those_map_Some:
  "(\<And>x. x \<in> set xs \<Longrightarrow> \<exists>y. f x = Some y) \<Longrightarrow> those (map f xs) = Some (map (\<lambda>x. the (f x)) xs)"
proof (induction xs)
  case Nil
  show ?case by simp
next
  case (Cons x xs)
  from Cons.prems obtain y where y: "f x = Some y" by auto
  from Cons have "those (map f xs) = Some (map (\<lambda>x. the (f x)) xs)" by simp
  with y show ?case by simp
qed

lemma search_collect:
  assumes ok: "store_ok (gags db)"
  shows "\<exists>rs. search db query search_in = Some rs
     \<and> set rs = {gag \<in> snd ` set (gags db). gag_match db (py_lower query) search_in gag}
     \<and> map title rs = sort (remdups (map title
          (filter (gag_match db (py_lower query) search_in) (map snd (gags db)))))"
proof -
  let ?M = "gag_match db (py_lower query) search_in"
  let ?hits = "filter ?M (map snd (gags db))"
  let ?ts = "sort (remdups (map title ?hits))"
  let ?rs = "map (\<lambda>t. the (map_of (gags db) t)) ?ts"
  have look: "map_of (gags db) (title g) = Some g" if "g \<in> set ?hits" for g
    using that by (intro store_ok_lookup [OF ok]) auto
  have ts: "set ?ts = title ` set ?hits" by simp
  have "\<exists>y. map_of (gags db) t = Some y" if "t \<in> set ?ts" for t
    using that look unfolding ts by auto
  then have "those (map (map_of (gags db)) ?ts) = Some ?rs"
    by (rule those_map_Some)
  then have 1: "search db query search_in = Some ?rs"
    by (simp add: search_def Let_def)
  have "set ?rs = (\<lambda>t. the (map_of (gags db) t)) ` title ` set ?hits"
    unfolding set_map ts ..
  also have "\<dots> = set ?hits"
    using look by (force simp: image_iff)
  finally have 2: "set ?rs = {gag \<in> snd ` set (gags db). ?M gag}" by auto
  have "title (the (map_of (gags db) t)) = t" if "t \<in> set ?ts" for t
  proof -
    from that obtain g where g: "g \<in> set ?hits" "t = title g" unfolding ts by blast
    from look [OF g(1)] g(2) show ?thesis by simp
  qed
  then have 3: "map title ?rs = ?ts"
    unfolding map_map by (intro map_idI) simp
  from 1 2 3 show ?thesis by blast
qed

text \<open>
  C1, as amended. For every loaded store, every query and each of the scopes character,
  description and all, \<^verbatim>\<open>search\<close> returns exactly the records of the store that satisfy
  the rule of the scope, where an owner or a description counts only when it is a non-empty
  string; each record once, in ascending order of title.
\<close>

theorem search_exact:
  assumes "search_in \<in> {''character'', ''description'', ''all''}"
  shows "\<exists>rs. search (load_all_gags files) query search_in = Some rs
     \<and> set rs = {gag \<in> snd ` set (gags (load_all_gags files)).
                   scope_rule (load_all_gags files) query search_in gag}
     \<and> distinct rs
     \<and> sorted (map title rs) \<and> distinct (map title rs)"
proof -
  let ?db = "load_all_gags files"
  from search_collect [OF load_store_ok, of files query search_in]
  obtain rs where rs: "search ?db query search_in = Some rs"
    and s: "set rs = {gag \<in> snd ` set (gags ?db). gag_match ?db (py_lower query) search_in gag}"
    and t: "map title rs = sort (remdups (map title
          (filter (gag_match ?db (py_lower query) search_in) (map snd (gags ?db)))))"
    by blast
  have 1: "set rs = {gag \<in> snd ` set (gags ?db). scope_rule ?db query search_in gag}"
    unfolding s by (simp only: gag_match_rule [OF assms])
  have 2: "sorted (map title rs)" "distinct (map title rs)"
    unfolding t by simp_all
  from 2(2) have 3: "distinct rs" by (simp add: distinct_map)
  from rs 1 2 3 show ?thesis by blast
qed

theorem search_exact_witness:
  "\<exists>rs. search (load_all_gags
            [\<lparr>path_stem = ''a'', path_name = ''a.txt'',
              content = ''Description: Stewie robs a bank for money''\<rparr>])
          ''Money'' ''description'' = Some rs
     \<and> distinct rs \<and> sorted (map title rs)"
proof -
  have h: "''description'' \<in> {''character'', ''description'', ''all''}" by simp
  from search_exact [OF h] show ?thesis by blast
qed

text \<open>
  The claim as stated fails on an owner that is set to the empty string and the empty
  query: the owner is set and the query occurs in it, and the record is not returned.
\<close>

theorem search_empty_owner:
  "map snd (gags (load_all_gags
      [\<lparr>path_stem = ''blank'', path_name = ''blank.txt'', content = ''Cutaway Owner: ''\<rparr>]))
     = [\<lparr>title = ''blank'', season = None, episode = None, episode_order = None,
         cutaway_owner = Some [], description = None, filename = ''blank.txt''\<rparr>]
   \<and> py_in (py_lower []) (py_lower [])
   \<and> search (load_all_gags
      [\<lparr>path_stem = ''blank'', path_name = ''blank.txt'', content = ''Cutaway Owner: ''\<rparr>])
        [] ''character'' = Some []"
  by (simp add: eval_defs)

section \<open>Stop words and the index\<close>

lemma keywords_not_stop: "w \<in> set (extract_keywords text n) \<Longrightarrow> w \<notin> set stop_words"
  by (simp add: extract_keywords_def Let_def)

lemma load_index_apply:
  "index (load_all_gags fs) k =
     (if \<exists>g \<in> set (parsed fs). k \<in> set (gag_tokens g)
      then Some {title g | g. g \<in> set (parsed fs) \<and> k \<in> set (gag_tokens g)}
      else None)"
  unfolding load_all_gags_def load_index index_gags_apply
  by (simp add: new_database_def titles_of_def)

text \<open>
  C8, as amended. When the lower-cased query is a stop word, a title is filed under it in
  the index of a loaded store only for a loaded file with that title whose owner,
  lower-cased, is the query. The keywords of descriptions never file a title under a stop
  word.
\<close>

theorem stop_word_index_hits:
  assumes "py_lower query \<in> set stop_words"
      and "index (load_all_gags files) (py_lower query) = Some ts"
      and "t \<in> ts"
  shows "\<exists>f \<in> set files. \<exists>gag. parse_gag_file f = Some gag \<and> title gag = t
           \<and> (\<exists>ow. cutaway_owner gag = Some ow \<and> ow \<noteq> []
                 \<and> py_lower ow = py_lower query)"
proof -
  from assms(2,3) obtain g where g: "g \<in> set (parsed files)" "title g = t"
    and tok: "py_lower query \<in> set (gag_tokens g)"
    unfolding load_index_apply by (auto split: if_splits)
  from tok assms(1) have "truthy (cutaway_owner g)
      \<and> py_lower query = py_lower (the (cutaway_owner g))"
    unfolding gag_tokens_def by (auto split: if_splits dest: keywords_not_stop)
  then obtain ow where "cutaway_owner g = Some ow" "ow \<noteq> []" "py_lower ow = py_lower query"
    by (cases "cutaway_owner g") auto
  with g show ?thesis unfolding set_parsed by blast
qed

theorem stop_word_index_hits_witness:
  "\<exists>f \<in> set [\<lparr>path_stem = ''band'', path_name = ''band.txt'',
                content = ''Cutaway Owner: The''\<rparr>].
     \<exists>gag. parse_gag_file f = Some gag \<and> title gag = ''band''
       \<and> (\<exists>ow. cutaway_owner gag = Some ow \<and> ow \<noteq> []
             \<and> py_lower ow = py_lower ''the'')"
proof -
  let ?fs = "[\<lparr>path_stem = ''band'', path_name = ''band.txt'',
               content = ''Cutaway Owner: The''\<rparr>]"
  have 1: "py_lower ''the'' \<in> set stop_words"
    by (simp add: eval_defs)
  have 2: "index (load_all_gags ?fs) (py_lower ''the'') = Some {''band''}"
    by (simp add: eval_defs)
  have 3: "''band'' \<in> {''band''}" by simp
  from stop_word_index_hits [OF 1 2 3] show ?thesis .
qed

text \<open>
  The claim as stated fails on a record whose owner is a stop word: the query "the" finds
  it through the index, in the description scope, though it has no description.
\<close>

theorem stop_word_owner_hit:
  "index (load_all_gags
      [\<lparr>path_stem = ''band'', path_name = ''band.txt'', content = ''Cutaway Owner: The''\<rparr>])
     (py_lower ''the'') = Some {''band''}
   \<and> ''the'' \<in> set stop_words
   \<and> search (load_all_gags
      [\<lparr>path_stem = ''band'', path_name = ''band.txt'', content = ''Cutaway Owner: The''\<rparr>])
        ''the'' ''description''
     = Some [\<lparr>title = ''band'', season = None, episode = None, episode_order = None,
         cutaway_owner = Some ''The'', description = None, filename = ''band.txt''\<rparr>]"
  by (simp add: eval_defs)

section \<open>Keywords\<close>

lemma az_word: "is_az c \<Longrightarrow> is_word c"
  by (simp add: is_word_def)

lemma az_not_digit: "is_az c \<Longrightarrow> \<not> is_digit c"
  by (simp add: is_az_def is_digit_def)

lemma az_more_eq:
  assumes "is_az l"
  shows "az_more l s =
     (if dropWhile is_az s = [] \<or> \<not> is_word (hd (dropWhile is_az s))
      then Some (takeWhile is_az s, dropWhile is_az s) else None)"
  using assms
proof (induction s arbitrary: l)
  case Nil
  then show ?case by (simp add: word_boundary_def az_word)
next
  case (Cons c cs)
  show ?case
  proof (cases "is_az c")
    case True
    from Cons.IH [OF True] True Cons.prems show ?thesis
      by (simp add: word_boundary_def az_word)
  next
    case False
    with Cons.prems show ?thesis
      by (simp add: word_boundary_def az_word)
  qed
qed

lemma match_word_eq:
  "match_word prev (c # cs) =
     (if \<not> word_char prev \<and> is_az c
         \<and> (dropWhile is_az cs = [] \<or> \<not> is_word (hd (dropWhile is_az cs)))
      then Some (takeWhile is_az (c # cs), dropWhile is_az cs) else None)"
  by (auto simp: az_more_eq word_boundary_def az_word)

lemma takeWhile_az_word:
  assumes "dropWhile is_az cs = [] \<or> \<not> is_word (hd (dropWhile is_az cs))"
  shows "takeWhile is_word cs = takeWhile is_az cs \<and> dropWhile is_word cs = dropWhile is_az cs"
  using assms
proof (induction cs)
  case Nil
  show ?case by simp
next
  case (Cons c cs)
  show ?case
  proof (cases "is_az c")
    case True
    with Cons show ?thesis by (simp add: az_word)
  next
    case False
    with Cons.prems show ?thesis by simp
  qed
qed

lemma not_all_az_word:
  assumes "dropWhile is_az cs \<noteq> []" and "is_word (hd (dropWhile is_az cs))"
  shows "\<not> list_all is_az (takeWhile is_word cs)"
  using assms
proof (induction cs)
  case Nil
  then show ?case by simp
next
  case (Cons c cs)
  show ?case
  proof (cases "is_az c")
    case True
    with Cons show ?thesis by (simp add: az_word)
  next
    case False
    with Cons.prems show ?thesis by simp
  qed
qed

lemma dropWhile_word_start: "s = [] \<or> \<not> is_word (hd s) \<Longrightarrow> dropWhile is_word s = s"
  by (cases s) auto

lemma findall_words_runs:
  "findall_words prev s =
     filter (list_all is_az)
       (runs is_word (if word_char prev then dropWhile is_word s else s))"
proof (induction prev s rule: findall_words.induct)
  case (1 prev)
  show ?case by simp
next
  case (2 prev c cs)
  let ?r = "dropWhile is_az cs"
  show ?case
  proof (cases "match_word prev (c # cs)")
    case None
    then have f: "findall_words prev (c # cs) = findall_words (Some c) cs" by simp
    from None have nomatch: "word_char prev \<or> \<not> is_az c \<or> (?r \<noteq> [] \<and> is_word (hd ?r))"
      unfolding match_word_eq by (auto split: if_splits)
    note IH = "2.IH"(1) [OF None]
    show ?thesis
    proof (cases "is_word c")
      case True
      have "\<not> word_char prev \<Longrightarrow> \<not> list_all is_az (takeWhile is_word (c # cs))"
      proof -
        assume "\<not> word_char prev"
        with nomatch have "\<not> is_az c \<or> (?r \<noteq> [] \<and> is_word (hd ?r))" by simp
        then show ?thesis
        proof
          assume "\<not> is_az c"
          with True show ?thesis by simp
        next
          assume "?r \<noteq> [] \<and> is_word (hd ?r)"
          then have "\<not> list_all is_az (takeWhile is_word cs)" by (simp add: not_all_az_word)
          with True show ?thesis by simp
        qed
      qed
      with True show ?thesis unfolding f IH by auto
    next
      case False
      then show ?thesis unfolding f IH by simp
    qed
  next
    case (Some p)
    obtain w r where p: "p = (w, r)" by (cases p)
    from Some p have m: "match_word prev (c # cs) = Some (w, r)" by simp
    then have cond: "\<not> word_char prev" "is_az c" "?r = [] \<or> \<not> is_word (hd ?r)"
      and w: "w = takeWhile is_az (c # cs)" and r: "r = ?r"
      unfolding match_word_eq by (auto split: if_splits)
    from w cond(2) have w': "w = c # takeWhile is_az cs" by simp
    have lw: "word_char (Some (last w))"
    proof -
      have "last w \<in> set w" unfolding w' by (rule last_in_set) simp
      then have "is_az (last w)" unfolding w by (auto dest: set_takeWhileD)
      then show ?thesis by (simp add: az_word)
    qed
    have allaz: "list_all is_az w"
      unfolding w by (simp add: list_all_iff) (auto dest: set_takeWhileD)
    note IH = "2.IH"(2) [OF m refl]
    have f: "findall_words prev (c # cs) = w # findall_words (Some (last w)) r"
      using m by simp
    have tw: "takeWhile is_word cs = takeWhile is_az cs" "dropWhile is_word cs = ?r"
      using takeWhile_az_word [OF cond(3)] by simp_all
    have dr: "dropWhile is_word r = r"
      unfolding r by (rule dropWhile_word_start [OF cond(3)])
    have "runs is_word (c # cs) = w # runs is_word r"
      using cond(2) tw unfolding w' r by (simp add: az_word)
    with allaz cond(1) lw show ?thesis unfolding f IH by (simp add: dr)
  qed
qed

text \<open>
  C2, as amended. Tokenization lower-cases the text and produces, from left to right, the
  maximal runs of word characters (letters, digits, underscore) that consist of the letters
  a-z only, so that a run holding a digit or an underscore gives no token at all; it then
  drops the tokens shorter than the minimal length and the stop words. Every produced token
  consists of letters a-z, and no digit occurs in it.
\<close>

theorem extract_keywords_runs:
  "extract_keywords text min_length
     = filter (\<lambda>w. length w \<ge> min_length \<and> w \<notin> set stop_words)
         (filter (list_all is_az) (runs is_word (py_lower text)))
   \<and> (\<forall>w \<in> set (extract_keywords text min_length).
         length w \<ge> min_length \<and> w \<notin> set stop_words \<and> (\<forall>c \<in> set w. is_az c \<and> \<not> is_digit c))"
proof -
  have 1: "extract_keywords text min_length
     = filter (\<lambda>w. length w \<ge> min_length \<and> w \<notin> set stop_words)
         (filter (list_all is_az) (runs is_word (py_lower text)))"
    by (simp add: extract_keywords_def Let_def findall_words_runs)
  show ?thesis unfolding 1 by (auto simp: list_all_iff az_not_digit)
qed

theorem extract_keywords_runs_witness:
  "''money'' \<in> set (extract_keywords ''The money, honey5!'' 3)
   \<and> length ''money'' \<ge> 3 \<and> ''money'' \<notin> set stop_words"
proof -
  have m: "''money'' \<in> set (extract_keywords ''The money, honey5!'' 3)"
    by (simp add: eval_defs)
  from extract_keywords_runs [of "''The money, honey5!''" 3, THEN conjunct2, THEN bspec, OF m] m
  show ?thesis by simp
qed

text \<open>
  The claim as stated fails on a word that ends in a digit: "money5" gives no token, where
  the maximal run of letters is "money".
\<close>

theorem extract_keywords_digit_suffix:
  "extract_keywords ''money5'' 3 = [] \<and> spec_extract_keywords ''money5'' 3 = [''money'']"
  by (simp add: eval_defs spec_extract_keywords_def)

section \<open>The fields of the parser\<close>

lemma match_label_iff:
  "match_label label s = Some r \<longleftrightarrow> (\<exists>lab. s = lab @ r \<and> py_lower lab = py_lower label)"
proof (induction label s rule: match_label.induct)
  case (1 s)
  show ?case by (auto simp: py_lower_def)
next
  case (2 p ps)
  show ?case by (auto simp: py_lower_def)
next
  case (3 p ps c cs)
  show ?case
  proof
    assume "match_label (p # ps) (c # cs) = Some r"
    then have e: "py_lower_char c = py_lower_char p" and "match_label ps cs = Some r"
      by (auto split: if_splits)
    with 3 obtain lab where "cs = lab @ r" "py_lower lab = py_lower ps" by auto
    with e show "\<exists>lab. c # cs = lab @ r \<and> py_lower lab = py_lower (p # ps)"
      by (intro exI [of _ "c # lab"]) simp
  next
    assume "\<exists>lab. c # cs = lab @ r \<and> py_lower lab = py_lower (p # ps)"
    then obtain lab where l: "c # cs = lab @ r" "py_lower lab = py_lower (p # ps)" by blast
    then obtain lab' where lab: "lab = c # lab'" by (cases lab) auto
    with l have e: "py_lower_char c = py_lower_char p" and "cs = lab' @ r"
      "py_lower lab' = py_lower ps" by auto
    with 3 e have "match_label ps cs = Some r" by blast
    with e show "match_label (p # ps) (c # cs) = Some r" by simp
  qed
qed

lemma skip_ws_Some:
  "skip_ws m s = Some v \<Longrightarrow> \<exists>ws r. s = ws @ r \<and> list_all py_isspace ws \<and> m r = Some v"
proof (induction s)
  case Nil
  then show ?case
    by (intro exI [of _ "[]"]) simp
next
  case (Cons c cs)
  show ?case
  proof (cases "py_isspace c \<and> skip_ws m cs = Some v")
    case True
    with Cons.IH obtain ws r where "cs = ws @ r" "list_all py_isspace ws" "m r = Some v"
      by blast
    with True show ?thesis
      by (intro exI [of _ "c # ws"] exI [of _ r]) simp
  next
    case False
    with Cons.prems have "m (c # cs) = Some v"
      by (auto split: if_splits option.splits)
    then show ?thesis
      by (intro exI [of _ "[]"] exI [of _ "c # cs"]) simp
  qed
qed

lemma skip_ws_None:
  "skip_ws m (ws @ r) = None \<Longrightarrow> list_all py_isspace ws \<Longrightarrow> m r = None"
proof (induction ws)
  case Nil
  then show ?case by (cases r) (auto split: if_splits option.splits)
next
  case (Cons c ws)
  then show ?case by (auto split: option.splits)
qed

lemma re_search_Some:
  "re_search m s = Some v \<Longrightarrow> \<exists>pre r. s = pre @ r \<and> m r = Some v"
proof (induction s)
  case Nil
  then show ?case
    by (intro exI [of _ "[]"]) simp
next
  case (Cons c cs)
  show ?case
  proof (cases "m (c # cs)")
    case None
    with Cons obtain pre r where "cs = pre @ r" "m r = Some v" by auto
    then show ?thesis
      by (intro exI [of _ "c # pre"] exI [of _ r]) simp
  next
    case (Some w)
    with Cons.prems show ?thesis
      by (intro exI [of _ "[]"] exI [of _ "c # cs"]) simp
  qed
qed

lemma re_search_None: "re_search m (pre @ r) = None \<Longrightarrow> m r = None"
proof (induction pre)
  case Nil
  then show ?case by (cases r) (auto split: option.splits)
next
  case (Cons c pre)
  then show ?case by (auto split: option.splits)
qed

lemma search_field_Some:
  assumes "re_search (match_field label grp) s = Some v"
  shows "\<exists>pre lab ws r. s = pre @ lab @ ws @ r \<and> py_lower lab = py_lower label
           \<and> list_all py_isspace ws \<and> grp r = Some v"
proof -
  from re_search_Some [OF assms] obtain pre r0
    where s: "s = pre @ r0" and m: "match_field label grp r0 = Some v" by blast
  from m obtain r1 where l: "match_label label r0 = Some r1" and k: "skip_ws grp r1 = Some v"
    by (auto simp: match_field_def split: option.splits)
  from l obtain lab where r0: "r0 = lab @ r1" and lab: "py_lower lab = py_lower label"
    unfolding match_label_iff by blast
  from skip_ws_Some [OF k] obtain ws r where r1: "r1 = ws @ r"
    and ws: "list_all py_isspace ws" and g: "grp r = Some v" by blast
  from s r0 r1 have "s = pre @ lab @ ws @ r" by simp
  with lab ws g show ?thesis
    by (intro exI [of _ pre] exI [of _ lab] exI [of _ ws] exI [of _ r]) simp
qed

lemma search_field_None:
  assumes "re_search (match_field label grp) (pre @ lab @ ws @ r) = None"
    and "py_lower lab = py_lower label" and "list_all py_isspace ws"
  shows "grp r = None"
proof -
  from re_search_None [OF assms(1)] have "match_field label grp (lab @ ws @ r) = None" .
  moreover have "match_label label (lab @ ws @ r) = Some (ws @ r)"
    unfolding match_label_iff using assms(2) by (intro exI [of _ lab]) simp
  ultimately have "skip_ws grp (ws @ r) = None" by (simp add: match_field_def)
  from skip_ws_None [OF this assms(3)] show ?thesis .
qed

lemma digit_group_iff:
  "digit_group r = Some ds \<longleftrightarrow>
     ds \<noteq> [] \<and> list_all is_digit ds
       \<and> (\<exists>post. r = ds @ post \<and> (post = [] \<or> \<not> is_digit (hd post)))"
proof
  assume a: "digit_group r = Some ds"
  then have ds: "ds = takeWhile is_digit r" "ds \<noteq> []"
    by (auto simp: digit_group_def Let_def split: if_splits)
  let ?post = "dropWhile is_digit r"
  have "?post = [] \<or> \<not> is_digit (hd ?post)"
    using hd_dropWhile [of is_digit r] by auto
  moreover have "r = ds @ ?post" unfolding ds by simp
  moreover have "list_all is_digit ds"
    unfolding ds by (auto simp: list_all_iff dest: set_takeWhileD)
  ultimately show "ds \<noteq> [] \<and> list_all is_digit ds
       \<and> (\<exists>post. r = ds @ post \<and> (post = [] \<or> \<not> is_digit (hd post)))"
    using ds(2) by (intro conjI exI [of _ ?post]) simp_all
next
  assume "ds \<noteq> [] \<and> list_all is_digit ds
       \<and> (\<exists>post. r = ds @ post \<and> (post = [] \<or> \<not> is_digit (hd post)))"
  then obtain post where ds: "ds \<noteq> []" "list_all is_digit ds"
    and r: "r = ds @ post" and post: "post = [] \<or> \<not> is_digit (hd post)" by blast
  from ds(2) post have "takeWhile is_digit (ds @ post) = ds"
    by (cases post) (auto simp: takeWhile_append list_all_iff)
  with ds(1) show "digit_group r = Some ds"
    unfolding r by (simp add: digit_group_def)
qed

lemma search_digits_ok:
  "(case search_digits label text of
      None \<Rightarrow> (\<forall>ds. \<not> labelled_digits label text ds)
    | Some ds \<Rightarrow> labelled_digits label text ds)"
proof (cases "search_digits label text")
  case None
  have "\<not> labelled_digits label text ds" for ds
  proof
    assume "labelled_digits label text ds"
    then obtain pre lab ws post where t: "text = pre @ lab @ ws @ ds @ post"
      and l: "py_lower lab = py_lower label" "list_all py_isspace ws"
      and g: "ds \<noteq> [] \<and> list_all is_digit ds
                \<and> (\<exists>p. ds @ post = ds @ p \<and> (p = [] \<or> \<not> is_digit (hd p)))"
      unfolding labelled_digits_def by auto
    from None have "re_search (match_field label digit_group) (pre @ lab @ ws @ ds @ post) = None"
      unfolding search_digits_def t .
    from search_field_None [OF this l] have "digit_group (ds @ post) = None" .
    moreover from g have "digit_group (ds @ post) = Some ds" unfolding digit_group_iff .
    ultimately show False by simp
  qed
  with None show ?thesis by simp
next
  case (Some ds)
  then have "re_search (match_field label digit_group) text = Some ds"
    by (simp add: search_digits_def)
  from search_field_Some [OF this] obtain pre lab ws r
    where t: "text = pre @ lab @ ws @ r" and l: "py_lower lab = py_lower label"
      "list_all py_isspace ws" and g: "digit_group r = Some ds" by blast
  from g obtain post where "ds \<noteq> []" "list_all is_digit ds" "r = ds @ post"
    "post = [] \<or> \<not> is_digit (hd post)" unfolding digit_group_iff by blast
  with t l have "labelled_digits label text ds"
    unfolding labelled_digits_def
    by (intro exI [of _ pre] exI [of _ lab] exI [of _ ws] exI [of _ post]) simp
  with Some show ?thesis by simp
qed

lemma search_after_label:
  "after_label label text = Some rest \<Longrightarrow> skip_ws grp rest = Some v
     \<Longrightarrow> re_search (match_field label grp) text = Some v"
proof (induction "text")
  case Nil
  then show ?case by (simp add: match_field_def)
next
  case (Cons c cs)
  show ?case
  proof (cases "match_label label (c # cs)")
    case None
    with Cons show ?thesis by (simp add: match_field_def)
  next
    case (Some r)
    with Cons.prems show ?thesis by (simp add: match_field_def)
  qed
qed

lemma after_label_occurrence:
  "after_label label text = Some rest
     \<Longrightarrow> \<exists>pre lab. text = pre @ lab @ rest \<and> py_lower lab = py_lower label"
proof (induction "text")
  case Nil
  then show ?case
    unfolding after_label.simps match_label_iff by (intro exI [of _ "[]"]) simp
next
  case (Cons c cs)
  show ?case
  proof (cases "match_label label (c # cs)")
    case None
    with Cons obtain pre lab where "cs = pre @ lab @ rest" "py_lower lab = py_lower label"
      by auto
    then show ?thesis
      by (intro exI [of _ "c # pre"] exI [of _ lab]) simp
  next
    case (Some r)
    with Cons.prems have "match_label label (c # cs) = Some rest" by simp
    then obtain lab where "c # cs = lab @ rest" "py_lower lab = py_lower label"
      unfolding match_label_iff by blast
    then show ?thesis
      by (intro exI [of _ "[]"] exI [of _ lab]) simp
  qed
qed

lemma after_label_absent:
  "\<not> py_in (py_lower label) (py_lower text) \<Longrightarrow> after_label label text = None"
proof (induction "text")
  case Nil
  then show ?case by (cases label) auto
next
  case (Cons c cs)
  then have "match_label label (c # cs) = None"
    by (cases "match_label label (c # cs)") (auto dest: match_label_starts)
  with Cons show ?case by simp
qed

lemma py_in_length: "py_in a s \<Longrightarrow> length a \<le> length s"
  unfolding py_in_iff by auto

lemma py_lower_length: "py_lower a = py_lower b \<Longrightarrow> length a = length b"
  unfolding py_lower_def by (rule map_eq_imp_length_eq)

lemma after_label_leftmost:
  assumes "after_label label text = Some rest" and "label \<noteq> []"
  shows "\<exists>pre lab. text = pre @ lab @ rest \<and> py_lower lab = py_lower label
           \<and> \<not> py_in (py_lower label) (py_lower (pre @ butlast lab))"
  using assms(1)
proof (induction "text")
  case Nil
  with assms(2) show ?case by (cases label) auto
next
  case (Cons c cs)
  show ?case
  proof (cases "match_label label (c # cs)")
    case (Some r)
    with Cons.prems have "match_label label (c # cs) = Some rest" by simp
    then obtain lab where lab: "c # cs = lab @ rest" "py_lower lab = py_lower label"
      unfolding match_label_iff by blast
    from lab(2) assms(2) have "lab \<noteq> []" by (auto simp: py_lower_def)
    then have "length (py_lower (butlast lab)) < length (py_lower label)"
      using py_lower_length [OF lab(2)] assms(2) by (simp add: py_lower_def)
    then have "\<not> py_in (py_lower label) (py_lower ([] @ butlast lab))"
      using py_in_length [of "py_lower label" "py_lower (butlast lab)"] by auto
    with lab show ?thesis
      by (intro exI [of _ "[]"] exI [of _ lab]) simp
  next
    case None
    with Cons obtain pre lab where IH: "cs = pre @ lab @ rest" "py_lower lab = py_lower label"
      "\<not> py_in (py_lower label) (py_lower (pre @ butlast lab))" by auto
    from IH(2) assms(2) have ne: "lab \<noteq> []" by (auto simp: py_lower_def)
    have "\<not> starts_with (py_lower label) (py_lower (c # pre @ butlast lab))"
    proof
      assume "starts_with (py_lower label) (py_lower (c # pre @ butlast lab))"
      then obtain post where "map py_lower_char (c # pre @ butlast lab) = py_lower label @ post"
        unfolding starts_with_iff py_lower_def by blast
      then obtain lab' t where l: "c # pre @ butlast lab = lab' @ t"
        "py_lower label = py_lower lab'"
        unfolding map_eq_append_conv py_lower_def by blast
      have "c # cs = (c # pre @ butlast lab) @ [last lab] @ rest"
        using IH(1) ne by simp
      then have "c # cs = lab' @ (t @ [last lab] @ rest)"
        unfolding l(1) by simp
      with l(2) have "match_label label (c # cs) = Some (t @ [last lab] @ rest)"
        unfolding match_label_iff by (intro exI [of _ lab']) simp
      with None show False by simp
    qed
    with IH(3) have "\<not> py_in (py_lower label) (py_lower ((c # pre) @ butlast lab))"
      by simp
    with IH(1,2) show ?thesis
      by (intro exI [of _ "c # pre"] exI [of _ lab]) simp
  qed
qed

lemma newline_space: "py_isspace newline"
  by (simp add: py_isspace_def newline_def cp_def)

lemma digit_not_space: "is_digit c \<Longrightarrow> \<not> py_isspace c"
  by (auto simp: is_digit_def py_isspace_def)

lemma py_strip_space: "py_isspace c \<Longrightarrow> py_strip (c # s) = py_strip s"
  by (simp add: py_strip_def)

lemma until_eol_line: "until_eol s = line_of s"
  unfolding line_of_def by (induction s) auto

lemma skip_ws_line:
  "py_strip (line_of rest) \<noteq> []
     \<Longrightarrow> \<exists>raw. skip_ws line_group rest = Some raw \<and> py_strip raw = py_strip (line_of rest)"
proof (induction rest)
  case Nil
  then show ?case by (simp add: line_of_def py_strip_def)
next
  case (Cons c cs)
  show ?case
  proof (cases "py_isspace c")
    case True
    from Cons.prems have nl: "c \<noteq> newline"
      by (auto simp: line_of_def py_strip_def)
    with True have l: "py_strip (line_of (c # cs)) = py_strip (line_of cs)"
      by (simp add: line_of_def py_strip_space)
    with Cons obtain raw where "skip_ws line_group cs = Some raw"
      "py_strip raw = py_strip (line_of cs)" by auto
    with True l show ?thesis by simp
  next
    case False
    with newline_space have "c \<noteq> newline" by auto
    with False show ?thesis by (simp add: until_eol_line line_of_def)
  qed
qed

lemma skip_ws_digits:
  "leading_digits rest \<noteq> [] \<Longrightarrow> skip_ws digit_group rest = Some (leading_digits rest)"
proof (induction rest)
  case Nil
  then show ?case by (simp add: leading_digits_def)
next
  case (Cons c cs)
  show ?case
  proof (cases "is_blank c")
    case True
    with Cons have "skip_ws digit_group cs = Some (leading_digits cs)"
      by (simp add: leading_digits_def)
    with True show ?thesis by (simp add: leading_digits_def is_blank_def)
  next
    case False
    with Cons.prems have d: "is_digit c" and l: "leading_digits (c # cs) = takeWhile is_digit (c # cs)"
      by (auto simp: leading_digits_def split: if_splits)
    from d have "\<not> py_isspace c" by (rule digit_not_space)
    with d show ?thesis unfolding l by (simp add: digit_group_def)
  qed
qed

lemma text_field_rule_search:
  "text_field_rule label text (map_option py_strip (search_line label text))"
proof -
  have "search_line label text = None" if "\<not> py_in (py_lower label) (py_lower text)"
    using that unfolding search_line_def by (rule re_search_absent)
  moreover have "map_option py_strip (search_line label text) = Some (py_strip (line_of rest))"
    if "after_label label text = Some rest" "py_strip (line_of rest) \<noteq> []" for rest
  proof -
    from skip_ws_line [OF that(2)] obtain raw where "skip_ws line_group rest = Some raw"
      and s: "py_strip raw = py_strip (line_of rest)" by blast
    from search_after_label [OF that(1) this(1)] s show ?thesis
      by (simp add: search_line_def)
  qed
  ultimately show ?thesis by (simp add: text_field_rule_def)
qed

lemma numeric_field_rule_search:
  "numeric_field_rule label text (map_option digits_value (search_digits label text))"
proof -
  have 1: "case map_option digits_value (search_digits label text) of
         None \<Rightarrow> (\<forall>ds. \<not> labelled_digits label text ds)
       | Some n \<Rightarrow> (\<exists>ds. labelled_digits label text ds \<and> n = digits_value ds)"
    using search_digits_ok [of label "text"]
    by (cases "search_digits label text") auto
  have 2: "map_option digits_value (search_digits label text)
             = Some (digits_value (leading_digits rest))"
    if "after_label label text = Some rest" "leading_digits rest \<noteq> []" for rest
    using search_after_label [OF that(1) skip_ws_digits [OF that(2)]]
    by (simp add: search_digits_def)
  from 1 2 show ?thesis unfolding numeric_field_rule_def by blast
qed

text \<open>A season of 4301 digits: the conversion fails and the parser returns no record.\<close>

lemma parse_too_many_digits:
  "parse_gag_file \<lparr>path_stem = ''f'', path_name = ''f.txt'',
                    content = ''Season: 1'' @ replicate 4300 (CHR ''1'')\<rparr> = None"
proof -
  have "search_digits ''Season:'' (''Season: 1'' @ replicate 4300 (CHR ''1''))
          = Some (CHR ''1'' # replicate 4300 (CHR ''1''))"
    by (simp add: search_digits_def match_field_def digit_group_def py_lower_char_def
          is_upper_def py_isspace_def is_digit_def cp_def)
  then have "digits_over_limit ''Season:'' (''Season: 1'' @ replicate 4300 (CHR ''1''))"
    by (simp add: digits_over_limit_def int_max_str_digits_def)
  then show ?thesis by (simp add: parse_gag_file_cases)
qed

text \<open>
  C4, as amended. For every text that the parser turns into a record and each of the text
  fields title, episode, owner and description, the field is set only from an occurrence of
  its label with the colon, the label matched in any case and anywhere in the text, also
  inside a longer word: when the label occurs nowhere, the field is unset, and the title is
  the stem of the file name; when the line of the leftmost occurrence of the label goes on
  after the label with more than whitespace, the field is the rest of that line, with the
  whitespace at both ends trimmed.
\<close>

theorem parse_text_fields:
  assumes "parse_gag_file f = Some gag"
  shows "text_field_rule ''Episode:'' (content f) (episode gag)
   \<and> text_field_rule ''Cutaway Owner:'' (content f) (cutaway_owner gag)
   \<and> text_field_rule ''Description:'' (content f) (description gag)
   \<and> (\<not> py_in (py_lower ''Title:'') (py_lower (content f)) \<longrightarrow> title gag = path_stem f)
   \<and> (\<forall>rest. after_label ''Title:'' (content f) = Some rest \<and> py_strip (line_of rest) \<noteq> []
         \<longrightarrow> title gag = py_strip (line_of rest))"
proof -
  from assms have g:
    "title gag = (case search_line ''Title:'' (content f) of
                    None \<Rightarrow> path_stem f | Some v \<Rightarrow> py_strip v)"
    "episode gag = map_option py_strip (search_line ''Episode:'' (content f))"
    "cutaway_owner gag = map_option py_strip (search_line ''Cutaway Owner:'' (content f))"
    "description gag = map_option py_strip (search_line ''Description:'' (content f))"
    unfolding parse_gag_file_cases by (auto split: if_splits)
  note t = text_field_rule_search [of "''Title:''" "content f", unfolded text_field_rule_def]
  have 1: "\<not> py_in (py_lower ''Title:'') (py_lower (content f)) \<longrightarrow> title gag = path_stem f"
    using t unfolding g(1) by (cases "search_line ''Title:'' (content f)") auto
  have 2: "\<forall>rest. after_label ''Title:'' (content f) = Some rest \<and> py_strip (line_of rest) \<noteq> []
         \<longrightarrow> title gag = py_strip (line_of rest)"
    using t unfolding g(1) by (cases "search_line ''Title:'' (content f)") auto
  from 1 2 show ?thesis unfolding g(2-4) by (simp only: text_field_rule_search simp_thms)
qed

theorem parse_text_fields_witness:
  "map_option episode
     (parse_gag_file \<lparr>path_stem = ''f'', path_name = ''f.txt'',
                       content = ''Title: Pilot gag'' @ [newline] @ ''Episode:  Pilot ''\<rparr>)
     = Some (Some ''Pilot'')"
proof -
  let ?f = "\<lparr>path_stem = ''f'', path_name = ''f.txt'',
              content = ''Title: Pilot gag'' @ [newline] @ ''Episode:  Pilot ''\<rparr>"
  let ?g = "\<lparr>title = ''Pilot gag'', season = None, episode = Some ''Pilot'',
              episode_order = None, cutaway_owner = None, description = None,
              filename = ''f.txt''\<rparr>"
  have p: "parse_gag_file ?f = Some ?g"
    by (simp add: eval_defs)
  have a: "after_label ''Episode:'' (content ?f) = Some ''  Pilot ''
             \<and> py_strip (line_of ''  Pilot '') \<noteq> []"
    by (simp add: eval_defs line_of_def)
  from parse_text_fields [OF p, THEN conjunct1, unfolded text_field_rule_def,
      THEN conjunct2, THEN spec, THEN mp, OF a]
  have "episode ?g = Some (py_strip (line_of ''  Pilot ''))" .
  with p show ?thesis by simp
qed

text \<open>
  The claim as stated fails on a label inside a longer word: no line starts with the label
  of the title, and the title is set.
\<close>

theorem parse_label_inside_word:
  "parse_gag_file \<lparr>path_stem = ''f'', path_name = ''f.txt'', content = ''Subtitle: X''\<rparr>
     = Some \<lparr>title = ''X'', season = None, episode = None, episode_order = None,
             cutaway_owner = None, description = None, filename = ''f.txt''\<rparr>
   \<and> \<not> has_label_line ''Title:'' ''Subtitle: X''"
  by (simp add: eval_defs has_label_line_def)

text \<open>
  C3, as amended. The parser returns no record exactly when the digits captured for the
  season or for the episode order are more than 4300, the conversion error being caught; it
  never fails otherwise. In a returned record, each of the two fields is set exactly when
  the text holds, anywhere, the label with its colon in any case, followed by whitespace and
  a digit, and it is then the number written by the maximal run of digits of such an
  occurrence, whatever follows the digits; when the line of the leftmost occurrence of the
  label goes on after the label and blanks with digits, the field is the number these
  digits write.
\<close>

theorem parse_numeric_fields:
  "(parse_gag_file f = None
      \<longleftrightarrow> digits_over_limit ''Season:'' (content f)
          \<or> digits_over_limit ''Episode Order:'' (content f))
   \<and> (\<forall>gag. parse_gag_file f = Some gag
         \<longrightarrow> numeric_field_rule ''Season:'' (content f) (season gag)
           \<and> numeric_field_rule ''Episode Order:'' (content f) (episode_order gag))"
proof -
  have 1: "parse_gag_file f = None
      \<longleftrightarrow> digits_over_limit ''Season:'' (content f)
          \<or> digits_over_limit ''Episode Order:'' (content f)"
    unfolding parse_gag_file_cases by simp
  have 2: "numeric_field_rule ''Season:'' (content f) (season gag)
           \<and> numeric_field_rule ''Episode Order:'' (content f) (episode_order gag)"
    if "parse_gag_file f = Some gag" for gag
  proof -
    from that have
      "season gag = map_option digits_value (search_digits ''Season:'' (content f))"
      "episode_order gag
         = map_option digits_value (search_digits ''Episode Order:'' (content f))"
      unfolding parse_gag_file_cases by (auto split: if_splits)
    then show ?thesis by (simp only: numeric_field_rule_search simp_thms)
  qed
  from 1 2 show ?thesis by blast
qed

theorem parse_numeric_fields_witness:
  "map_option season
     (parse_gag_file \<lparr>path_stem = ''f'', path_name = ''f.txt'', content = ''season: 12''\<rparr>)
     = Some (Some 12)
   \<and> parse_gag_file \<lparr>path_stem = ''f'', path_name = ''f.txt'',
                      content = ''Season: 1'' @ replicate 4300 (CHR ''1'')\<rparr> = None"
proof -
  let ?f = "\<lparr>path_stem = ''f'', path_name = ''f.txt'', content = ''season: 12''\<rparr>"
  let ?g = "\<lparr>title = ''f'', season = Some 12, episode = None,
              episode_order = None, cutaway_owner = None, description = None,
              filename = ''f.txt''\<rparr>"
  let ?big = "\<lparr>path_stem = ''f'', path_name = ''f.txt'',
                content = ''Season: 1'' @ replicate 4300 (CHR ''1'')\<rparr>"
  have p: "parse_gag_file ?f = Some ?g"
    by (simp add: eval_defs)
  have a: "after_label ''Season:'' (content ?f) = Some '' 12''
             \<and> leading_digits '' 12'' \<noteq> []"
    by (simp add: eval_defs leading_digits_def is_blank_def)
  from parse_numeric_fields [of ?f, THEN conjunct2, THEN spec, THEN mp, OF p, THEN conjunct1,
      unfolded numeric_field_rule_def, THEN conjunct2, THEN spec, THEN mp, OF a]
  have 1: "season ?g = Some (digits_value (leading_digits '' 12''))" .
  have "search_digits ''Season:'' (''Season: 1'' @ replicate 4300 (CHR ''1''))
          = Some (CHR ''1'' # replicate 4300 (CHR ''1''))"
    by (simp add: search_digits_def match_field_def digit_group_def py_lower_char_def
          is_upper_def py_isspace_def is_digit_def cp_def)
  then have o: "digits_over_limit ''Season:'' (content ?big)
                 \<or> digits_over_limit ''Episode Order:'' (content ?big)"
    by (simp add: digits_over_limit_def int_max_str_digits_def)
  from parse_numeric_fields [of ?big, THEN conjunct1, THEN iffD2, OF o]
  have 2: "parse_gag_file ?big = None" .
  from p 1 2 show ?thesis by simp
qed

text \<open>
  The claim as stated fails on a value that starts with digits: the line value "5abc" is
  not purely digits, and the season is set to 5.
\<close>

theorem parse_season_with_suffix:
  "parse_gag_file \<lparr>path_stem = ''f'', path_name = ''f.txt'', content = ''Season: 5abc''\<rparr>
     = Some \<lparr>title = ''f'', season = Some 5, episode = None, episode_order = None,
             cutaway_owner = None, description = None, filename = ''f.txt''\<rparr>
   \<and> search_line ''Season:'' ''Season: 5abc'' = Some ''5abc''
   \<and> \<not> list_all is_digit ''5abc''"
  by (simp add: eval_defs)

end
